theory Spec2Isabelle
  imports Main "HOL-Library.Word" "HOL-Library.Sublist"
begin

section \<open>Python strings\<close>

text \<open>
  A Python \<open>str\<close> is modelled as a \<open>string\<close>, each \<open>char\<close> read as a code point below
  256. The character classes are the ones of \<open>str.isspace\<close> (used by \<open>strip\<close> and
  by the pattern class \<open>\\s\<close>), of \<open>\\w\<close>, of \<open>\\d\<close> and of \<open>.\<close> on these code points.
\<close>

abbreviation newline :: char where
  "newline \<equiv> CHR 0x0A"

definition is_space :: "char \<Rightarrow> bool" where
  "is_space c =
     (let n = (of_char c :: nat)
      in (9 \<le> n \<and> n \<le> 13) \<or> (28 \<le> n \<and> n \<le> 32) \<or> n = 133 \<or> n = 160)"

definition is_word :: "char \<Rightarrow> bool" where
  "is_word c =
     (let n = (of_char c :: nat)
      in (48 \<le> n \<and> n \<le> 57) \<or> (65 \<le> n \<and> n \<le> 90) \<or> n = 95 \<or> (97 \<le> n \<and> n \<le> 122)
         \<or> n = 170 \<or> n = 178 \<or> n = 179 \<or> n = 181 \<or> n = 185 \<or> n = 186
         \<or> (188 \<le> n \<and> n \<le> 190) \<or> (192 \<le> n \<and> n \<le> 214) \<or> (216 \<le> n \<and> n \<le> 246)
         \<or> 248 \<le> n)"

definition is_digit :: "char \<Rightarrow> bool" where
  "is_digit c = (let n = (of_char c :: nat) in 48 \<le> n \<and> n \<le> 57)"

definition is_dot :: "char \<Rightarrow> bool" where
  "is_dot c = (c \<noteq> newline)"

definition lstrip :: "string \<Rightarrow> string" where
  "lstrip s = dropWhile is_space s"

definition rstrip :: "string \<Rightarrow> string" where
  "rstrip s = rev (dropWhile is_space (rev s))"

definition strip :: "string \<Rightarrow> string" where
  "strip s = rstrip (lstrip s)"

definition startswith :: "string \<Rightarrow> string \<Rightarrow> bool" where
  "startswith s p = (take (length p) s = p)"

definition endswith :: "string \<Rightarrow> string \<Rightarrow> bool" where
  "endswith s p = (length p \<le> length s \<and> drop (length s - length p) s = p)"

text \<open>\<open>s.split(sep)\<close> for a one-character separator: never an empty list.\<close>

fun split :: "char \<Rightarrow> string \<Rightarrow> string list" where
  "split sep [] = [[]]"
| "split sep (c # cs) =
     (if c = sep then [] # split sep cs
      else (case split sep cs of
              [] \<Rightarrow> [[c]]
            | p # ps \<Rightarrow> (c # p) # ps))"

text \<open>\<open>sep.join(parts)\<close>.\<close>

fun join :: "string \<Rightarrow> string list \<Rightarrow> string" where
  "join sep [] = []"
| "join sep [p] = p"
| "join sep (p # ps) = p @ sep @ join sep ps"

text \<open>
  \<open>s.replace(old, new)\<close> for a non-empty \<open>old\<close>: every occurrence, left to right,
  without overlap. (The program only replaces \<open>"_"\<close> and \<open>".html"\<close>.)
\<close>

function replace :: "string \<Rightarrow> string \<Rightarrow> string \<Rightarrow> string" where
  "replace old new s =
     (if old \<noteq> [] \<and> startswith s old then new @ replace old new (drop (length old) s)
      else (case s of [] \<Rightarrow> [] | c # cs \<Rightarrow> c # replace old new cs))"
  by pat_completeness auto
termination
proof (relation "measure (\<lambda>(old, new, s). length s)")
  fix old new s :: string
  assume "old \<noteq> [] \<and> startswith s old"
  then show "((old, new, drop (length old) s), (old, new, s)) \<in> measure (\<lambda>(old, new, s). length s)"
    by (cases s; cases old) (auto simp: startswith_def)
qed auto

declare replace.simps [simp del]

section \<open>Exceptions and indexing\<close>

datatype error =
  IndexError | KeyError | ValueError | TypeError | AttributeError | UnicodeDecodeError | URLError

text \<open>\<open>xs[i]\<close> with Python's negative indices; out of range raises \<open>IndexError\<close>.\<close>

definition getitem :: "'a list \<Rightarrow> int \<Rightarrow> error + 'a" where
  "getitem xs i =
     (let j = (if i < 0 then int (length xs) + i else i)
      in if 0 \<le> j \<and> j < int (length xs) then Inr (xs ! nat j) else Inl IndexError)"

text \<open>\<open>dict(attrs)[k]\<close>: the last pair with key \<open>k\<close> wins; a missing key raises \<open>KeyError\<close>.\<close>

definition dict_getitem :: "('k \<times> 'v) list \<Rightarrow> 'k \<Rightarrow> error + 'v" where
  "dict_getitem attrs k = (case map_of (rev attrs) k of None \<Rightarrow> Inl KeyError | Some v \<Rightarrow> Inr v)"

section \<open>The patterns given to \<open>re.search\<close>\<close>

text \<open>
  The three patterns of the program use literals, an optional part, the classes
  \<open>\\s\<close>, \<open>\\w\<close>, \<open>\\d\<close> and \<open>.\<close> under \<open>*\<close>, \<open>+\<close> and \<open>*?\<close>, and groups. \<open>alts r (s, g)\<close> lists,
  in the order in which a backtracking matcher tries them, the ways \<open>r\<close> can match a
  prefix of \<open>s\<close>: each as the input that is left and the groups closed so far.
\<close>

datatype re =
  Lit string
| Cls "char \<Rightarrow> bool"
| Opt re
| Star "char \<Rightarrow> bool"
| Plus "char \<Rightarrow> bool"
| LazyStar "char \<Rightarrow> bool"
| Seq re re
| Grp re

fun alts :: "re \<Rightarrow> string \<times> string list \<Rightarrow> (string \<times> string list) list" where
  "alts (Lit p) (s, g) = (if startswith s p then [(drop (length p) s, g)] else [])"
| "alts (Cls c) (s, g) = (case s of [] \<Rightarrow> [] | x # xs \<Rightarrow> if c x then [(xs, g)] else [])"
| "alts (Opt r) (s, g) = alts r (s, g) @ [(s, g)]"
| "alts (Star c) (s, g) = map (\<lambda>k. (drop k s, g)) (rev [0..<Suc (length (takeWhile c s))])"
| "alts (Plus c) (s, g) = map (\<lambda>k. (drop k s, g)) (rev [1..<Suc (length (takeWhile c s))])"
| "alts (LazyStar c) (s, g) = map (\<lambda>k. (drop k s, g)) [0..<Suc (length (takeWhile c s))]"
| "alts (Seq a b) (s, g) = concat (map (alts b) (alts a (s, g)))"
| "alts (Grp r) (s, g) =
     map (\<lambda>(t, g'). (t, g' @ [take (length s - length t) s])) (alts r (s, g))"

text \<open>The match anchored at the start of \<open>s\<close>: its length and its groups.\<close>

definition re_match :: "re \<Rightarrow> string \<Rightarrow> (nat \<times> string list) option" where
  "re_match r s =
     (case alts r (s, []) of [] \<Rightarrow> None | (t, g) # _ \<Rightarrow> Some (length s - length t, g))"

text \<open>
  \<open>re.search\<close>: the match at the leftmost position that has one; \<open>(start, end, groups)\<close>.
\<close>

fun search_from :: "re \<Rightarrow> nat \<Rightarrow> string \<Rightarrow> (nat \<times> nat \<times> string list) option" where
  "search_from r i s =
     (case re_match r s of
        Some (n, g) \<Rightarrow> Some (i, i + n, g)
      | None \<Rightarrow> (case s of [] \<Rightarrow> None | _ # s' \<Rightarrow> search_from r (Suc i) s'))"

declare search_from.simps [simp del]

definition re_search :: "re \<Rightarrow> string \<Rightarrow> (nat \<times> nat \<times> string list) option" where
  "re_search r s = search_from r 0 s"

definition re_seq :: "re list \<Rightarrow> re" where
  "re_seq rs = foldr Seq rs (Lit [])"

text \<open>\<open>"VA (EXTENDED )?ADVISORY"\<close>; only the start of the match is used.\<close>

definition va_advisory_re :: re where
  "va_advisory_re = re_seq [Lit ''VA '', Opt (Grp (Lit ''EXTENDED '')), Lit ''ADVISORY'']"

text \<open>\<open>"NXT ADVISORY:\\s*\\w+.*?\\n"\<close>\<close>

definition nxt_advisory_re :: re where
  "nxt_advisory_re =
     re_seq [Lit ''NXT ADVISORY:'', Star is_space, Plus is_word, LazyStar is_dot, Lit [newline]]"

text \<open>\<open>r"(.*) - (\\d\\d\\d\\d-\\d\\d-\\d\\d \\d\\d:\\d\\d) utc"\<close>\<close>

definition toulouse_re :: re where
  "toulouse_re =
     re_seq [Grp (Star is_dot), Lit '' - '',
       Grp (re_seq [Cls is_digit, Cls is_digit, Cls is_digit, Cls is_digit, Lit ''-'',
                    Cls is_digit, Cls is_digit, Lit ''-'', Cls is_digit, Cls is_digit, Lit '' '',
                    Cls is_digit, Cls is_digit, Lit '':'', Cls is_digit, Cls is_digit]),
       Lit '' utc'']"

section \<open>The events of the HTML scanner\<close>

text \<open>
  \<open>html.parser.HTMLParser\<close> calls \<open>handle_starttag(tag, attrs)\<close>, \<open>handle_data(data)\<close> and
  \<open>handle_endtag(tag)\<close>; an attribute without a value has the value \<open>None\<close>.
\<close>

datatype event =
  StartTag string "(string \<times> string option) list"
| Data string
| EndTag string

section \<open>VAAParser\<close>

record VAAParser =
  vaa_active :: bool
  vaa_text :: string

definition VAAParser_init :: VAAParser where
  "VAAParser_init = \<lparr>vaa_active = False, vaa_text = []\<rparr>"

definition VAAParser_handle_data :: "VAAParser \<Rightarrow> string \<Rightarrow> VAAParser" where
  "VAAParser_handle_data p data0 =
     (let data = strip data0
      in if length data > 0 then
           (if vaa_active p then p\<lparr>vaa_text := vaa_text p @ data @ '' ''\<rparr>
            else (case re_search va_advisory_re data of
                    Some (start, _, _) \<Rightarrow> p\<lparr>vaa_active := True, vaa_text := drop start data\<rparr>
                  | None \<Rightarrow> p))
         else p)"

definition VAAParser_handle_endtag :: "VAAParser \<Rightarrow> string \<Rightarrow> VAAParser" where
  "VAAParser_handle_endtag p tag =
     (if vaa_active p then
        (let p1 = (if tag \<in> set [''h1'', ''h2'', ''h3'', ''div'', ''p'', ''br'', ''code'']
                   then p\<lparr>vaa_text := rstrip (vaa_text p) @ [newline]\<rparr> else p)
         in case re_search nxt_advisory_re (vaa_text p1) of
              Some (_, e, _) \<Rightarrow> p1\<lparr>vaa_text := take e (vaa_text p1), vaa_active := False\<rparr>
            | None \<Rightarrow> p1)
      else p)"

fun VAAParser_handle :: "VAAParser \<Rightarrow> event \<Rightarrow> VAAParser" where
  "VAAParser_handle p (StartTag tag attrs) = p"
| "VAAParser_handle p (Data data) = VAAParser_handle_data p data"
| "VAAParser_handle p (EndTag tag) = VAAParser_handle_endtag p tag"

definition VAAParser_events :: "VAAParser \<Rightarrow> event list \<Rightarrow> VAAParser" where
  "VAAParser_events p evs = foldl VAAParser_handle p evs"

section \<open>ToulouseFetcher.ListParser\<close>

text \<open>
  An \<open>href\<close> is a \<open>string option\<close>: \<open>Some s\<close> is the \<open>str\<close> \<open>s\<close> and \<open>None\<close> is Python's
  \<open>None\<close>, the value of an attribute written without one. The only exception
  \<open>dict(attrs)["href"]\<close> raises is \<open>KeyError\<close>, which the handlers catch.
\<close>

record ListParser =
  lp_active :: bool
  lp_href :: "string option"
  lp_text :: string
  lp_anchors :: "(string option \<times> string \<times> string) list"

definition ListParser_init :: ListParser where
  "ListParser_init = \<lparr>lp_active = False, lp_href = Some [], lp_text = [], lp_anchors = []\<rparr>"

text \<open>\<open>match.group(n)\<close> for \<open>n \<ge> 1\<close>.\<close>

definition group :: "string list \<Rightarrow> nat \<Rightarrow> string" where
  "group g n = g ! (n - 1)"

definition ListParser_handle_starttag ::
  "ListParser \<Rightarrow> string \<Rightarrow> (string \<times> string option) list \<Rightarrow> ListParser" where
  "ListParser_handle_starttag p tag attrs =
     (let p1 = (if tag = ''ul'' then p\<lparr>lp_active := True\<rparr> else p)
      in if lp_active p1 then
           (if tag = ''a'' then
              (case dict_getitem attrs ''href'' of
                 Inr v \<Rightarrow> p1\<lparr>lp_href := v\<rparr>
               | Inl _ \<Rightarrow> p1)
            else p1)
         else p1)"

definition ListParser_handle_data :: "ListParser \<Rightarrow> string \<Rightarrow> ListParser" where
  "ListParser_handle_data p data =
     (if lp_active p then p\<lparr>lp_text := lp_text p @ strip data\<rparr> else p)"

definition ListParser_handle_endtag :: "ListParser \<Rightarrow> string \<Rightarrow> ListParser" where
  "ListParser_handle_endtag p tag =
     (let p1 = (if tag = ''ul'' then p\<lparr>lp_active := False\<rparr> else p)
      in if lp_active p1 then
           (if tag = ''li'' then
              (let p2 = (case re_search toulouse_re (lp_text p1) of
                           Some (_, _, g) \<Rightarrow>
                             p1\<lparr>lp_anchors := lp_anchors p1 @ [(lp_href p1, group g 1, group g 2)]\<rparr>
                         | None \<Rightarrow> p1)
               in p2\<lparr>lp_href := Some [], lp_text := []\<rparr>)
            else p1)
         else p1)"

fun ListParser_handle :: "ListParser \<Rightarrow> event \<Rightarrow> ListParser" where
  "ListParser_handle p (StartTag tag attrs) = ListParser_handle_starttag p tag attrs"
| "ListParser_handle p (Data data) = ListParser_handle_data p data"
| "ListParser_handle p (EndTag tag) = ListParser_handle_endtag p tag"

definition ListParser_events :: "ListParser \<Rightarrow> event list \<Rightarrow> ListParser" where
  "ListParser_events p evs = foldl ListParser_handle p evs"

section \<open>LondonFetcher.TableParser\<close>

record cell =
  cell_text :: string
  cell_href :: "string option"

record TableParser =
  tp_href :: "string option"
  tp_text :: string
  tp_row :: "cell list"
  tp_rows :: "cell list list"

definition TableParser_init :: TableParser where
  "TableParser_init = \<lparr>tp_href = Some [], tp_text = [], tp_row = [], tp_rows = []\<rparr>"

definition TableParser_handle_starttag ::
  "TableParser \<Rightarrow> string \<Rightarrow> (string \<times> string option) list \<Rightarrow> TableParser" where
  "TableParser_handle_starttag p tag attrs =
     (let p1 = (if tag = ''tbody''
                then p\<lparr>tp_href := Some [], tp_text := [], tp_row := [], tp_rows := []\<rparr> else p)
      in if tag = ''a'' then
           (case dict_getitem attrs ''href'' of
              Inr v \<Rightarrow> p1\<lparr>tp_href := v\<rparr>
            | Inl _ \<Rightarrow> p1)
         else p1)"

definition TableParser_handle_data :: "TableParser \<Rightarrow> string \<Rightarrow> TableParser" where
  "TableParser_handle_data p data = p\<lparr>tp_text := tp_text p @ strip data\<rparr>"

text \<open>
  \<open>self.rows.append(self.row)\<close> stores the list object itself, and \<open>self.row = []\<close> binds
  a new one in the same call, so a row is never changed after it is stored.
\<close>

definition TableParser_handle_endtag :: "TableParser \<Rightarrow> string \<Rightarrow> TableParser" where
  "TableParser_handle_endtag p tag =
     (let p1 = (if tag = ''td''
                then p\<lparr>tp_row := tp_row p @ [\<lparr>cell_text = tp_text p, cell_href = tp_href p\<rparr>],
                       tp_href := Some [], tp_text := []\<rparr>
                else p)
      in if tag = ''tr'' then
           (let p2 = (if length (tp_row p1) > 0
                      then p1\<lparr>tp_rows := tp_rows p1 @ [tp_row p1]\<rparr> else p1)
            in p2\<lparr>tp_row := []\<rparr>)
         else p1)"

fun TableParser_handle :: "TableParser \<Rightarrow> event \<Rightarrow> TableParser" where
  "TableParser_handle p (StartTag tag attrs) = TableParser_handle_starttag p tag attrs"
| "TableParser_handle p (Data data) = TableParser_handle_data p data"
| "TableParser_handle p (EndTag tag) = TableParser_handle_endtag p tag"

definition TableParser_events :: "TableParser \<Rightarrow> event list \<Rightarrow> TableParser" where
  "TableParser_events p evs = foldl TableParser_handle p evs"

section \<open>Parser\<close>

text \<open>
  \<open>Parser\<close> shares list objects: \<open>handle_endtag("a")\<close> stores the lists \<open>self.text\<close> and
  \<open>self.table_row\<close> themselves in \<open>self.anchors\<close>, and \<open>self.text += [...]\<close> and
  \<open>self.table_row.append(...)\<close> later change them in place. The lists therefore live in
  a store: \<open>p_texts\<close> holds the lists of chunks and \<open>p_rows\<close> the row lists (of addresses
  of chunk lists), an address being an index; \<open>self.text = []\<close> and
  \<open>self.table_row = []\<close> allocate.
\<close>

record Parser =
  p_href :: "string option"
  p_text :: nat
  p_table_row :: nat
  p_anchors :: "(string option \<times> nat \<times> nat) list"
  p_texts :: "string list list"
  p_rows :: "nat list list"

definition Parser_init :: Parser where
  "Parser_init =
     \<lparr>p_href = Some [], p_text = 0, p_table_row = 0, p_anchors = [],
      p_texts = [[]], p_rows = [[]]\<rparr>"

definition Parser_handle_starttag ::
  "Parser \<Rightarrow> string \<Rightarrow> (string \<times> string option) list \<Rightarrow> Parser" where
  "Parser_handle_starttag p tag attrs =
     (if tag = ''a'' then
        (let p1 = p\<lparr>p_href := Some []\<rparr>
         in case dict_getitem attrs ''href'' of
              Inr v \<Rightarrow> p1\<lparr>p_href := v\<rparr>
            | Inl _ \<Rightarrow> p1)
      else if tag = ''tr'' \<or> tag = ''li'' then
        p\<lparr>p_table_row := length (p_rows p), p_rows := p_rows p @ [[]]\<rparr>
      else p)"

definition Parser_handle_data :: "Parser \<Rightarrow> string \<Rightarrow> Parser" where
  "Parser_handle_data p data =
     p\<lparr>p_texts := (p_texts p)[p_text p := p_texts p ! p_text p @ [strip data]]\<rparr>"

definition Parser_handle_endtag :: "Parser \<Rightarrow> string \<Rightarrow> Parser" where
  "Parser_handle_endtag p tag =
     (if tag = ''a'' then
        p\<lparr>p_anchors := p_anchors p @ [(p_href p, p_text p, p_table_row p)]\<rparr>
      else if tag = ''td'' \<or> tag = ''li'' then
        p\<lparr>p_rows := (p_rows p)[p_table_row p := p_rows p ! p_table_row p @ [p_text p]],
          p_text := length (p_texts p), p_texts := p_texts p @ [[]]\<rparr>
      else p)"

fun Parser_handle :: "Parser \<Rightarrow> event \<Rightarrow> Parser" where
  "Parser_handle p (StartTag tag attrs) = Parser_handle_starttag p tag attrs"
| "Parser_handle p (Data data) = Parser_handle_data p data"
| "Parser_handle p (EndTag tag) = Parser_handle_endtag p tag"

definition Parser_events :: "Parser \<Rightarrow> event list \<Rightarrow> Parser" where
  "Parser_events p evs = foldl Parser_handle p evs"

text \<open>
  \<open>p.anchors\<close> as the fetch loop reads it: each anchor with the contents its two lists
  have by then, \<open>(href, text, table_text)\<close>.
\<close>

definition Parser_anchors :: "Parser \<Rightarrow> (string option \<times> string list \<times> string list list) list" where
  "Parser_anchors p =
     map (\<lambda>(h, t, r). (h, p_texts p ! t, map (\<lambda>a. p_texts p ! a) (p_rows p ! r))) (p_anchors p)"

section \<open>What the program calls outside itself\<close>

text \<open>
  \<open>urlopen(...).read()\<close> returns \<open>bytes\<close>; a buffer stays \<open>bytes\<close> when decoding fails and
  is a \<open>str\<close> otherwise.
\<close>

datatype buffer = Bytes "8 word list" | Str string

text \<open>
  The library and the outside world are parameters, \<open>'t\<close> being \<open>datetime\<close>:
  \<^item> \<open>bytes_decode\<close>: \<open>bytes.decode()\<close>, \<open>None\<close> for \<open>UnicodeDecodeError\<close>;
  \<^item> \<open>html_events\<close>: the handler calls \<open>HTMLParser.feed\<close> and \<open>close\<close> make on a buffer,
    or the exception the library raises;
  \<^item> \<open>urlopen_read\<close>: the body behind a URL, or the exception;
  \<^item> \<open>strptime\<close>: \<open>datetime.strptime(text, format)\<close>, \<open>None\<close> for \<open>ValueError\<close>;
  \<^item> \<open>strftime\<close>, \<open>dt_str\<close> (\<open>str(date)\<close>), \<open>dt_now\<close>;
  \<^item> \<open>urljoin\<close>: \<open>urllib.parse.urljoin(base, url)\<close>, or the exception;
  \<^item> \<open>path_exists\<close>: \<open>os.path.exists\<close>.
\<close>

record 't world =
  bytes_decode :: "8 word list \<Rightarrow> string option"
  html_events :: "buffer \<Rightarrow> error + event list"
  urlopen_read :: "string \<Rightarrow> error + buffer"
  strptime :: "string \<Rightarrow> string \<Rightarrow> 't option"
  strftime :: "'t \<Rightarrow> string \<Rightarrow> string"
  dt_str :: "'t \<Rightarrow> string"
  dt_now :: 't
  urljoin :: "string \<Rightarrow> string option \<Rightarrow> error + string"
  path_exists :: "string \<Rightarrow> bool"

text \<open>
  \<open>try: data = data.decode()  except (UnicodeDecodeError, AttributeError): pass\<close>;
  a \<open>str\<close> has no \<open>decode\<close>.
\<close>

fun try_decode :: "'t world \<Rightarrow> buffer \<Rightarrow> buffer" where
  "try_decode w (Bytes b) = (case bytes_decode w b of Some s \<Rightarrow> Str s | None \<Rightarrow> Bytes b)"
| "try_decode w (Str s) = Str s"

section \<open>The \<open>feed\<close> methods\<close>

definition Parser_feed :: "'t world \<Rightarrow> Parser \<Rightarrow> buffer \<Rightarrow> error + Parser" where
  "Parser_feed w p data =
     (let p0 = p\<lparr>p_anchors := []\<rparr>
      in case html_events w (try_decode w data) of
           Inl e \<Rightarrow> Inl e
         | Inr evs \<Rightarrow> Inr (Parser_events p0 evs))"

text \<open>\<open>VAAParser.feed\<close> sets \<open>self.anchors = []\<close>, an attribute nothing else reads.\<close>

definition VAAParser_feed :: "'t world \<Rightarrow> VAAParser \<Rightarrow> buffer \<Rightarrow> error + VAAParser" where
  "VAAParser_feed w p data =
     (case html_events w (try_decode w data) of
        Inl e \<Rightarrow> Inl e
      | Inr evs \<Rightarrow> Inr (VAAParser_events p evs))"

definition ListParser_feed :: "'t world \<Rightarrow> ListParser \<Rightarrow> buffer \<Rightarrow> error + ListParser" where
  "ListParser_feed w p data =
     (case html_events w (try_decode w data) of
        Inl e \<Rightarrow> Inl e
      | Inr evs \<Rightarrow> Inr (ListParser_events p evs))"

definition TableParser_feed :: "'t world \<Rightarrow> TableParser \<Rightarrow> buffer \<Rightarrow> error + TableParser" where
  "TableParser_feed w p data =
     (let p0 = p\<lparr>tp_rows := []\<rparr>
      in case html_events w (try_decode w data) of
           Inl e \<Rightarrow> Inl e
         | Inr evs \<Rightarrow> Inr (TableParser_events p0 evs))"

section \<open>Fetcher\<close>

text \<open>\<open>os.path.join(a, b)\<close> of \<open>posixpath\<close>.\<close>

definition path_join :: "string \<Rightarrow> string \<Rightarrow> string" where
  "path_join a b =
     (if startswith b ''/'' then b
      else if a = [] \<or> endswith a ''/'' then a @ b
      else a @ ''/'' @ b)"

text \<open>\<open>href.split("/")[-1]\<close>: \<open>split\<close> never returns an empty list.\<close>

definition hasExistingFile :: "'t world \<Rightarrow> string \<Rightarrow> string \<Rightarrow> bool" where
  "hasExistingFile w output_dir href =
     (let file_name = last (split (CHR ''/'') href);
          vaa_file = path_join output_dir file_name;
          kml_file = (if endswith vaa_file ''.html'' then replace ''.html'' ''.kml'' file_name
                      else file_name @ ''.kml'')
      in path_exists w (path_join output_dir kml_file))"

text \<open>
  A \<open>QListWidgetItem\<close> with the attributes the fetchers set; flags and check state are
  the same for every item.
\<close>

record item =
  item_text :: string
  item_filename :: string
  item_url :: string
  item_content :: "string option"
  item_vag :: "string option"

text \<open>\<open>"%s (%s)" % (date, volcano)\<close>\<close>

definition title :: "string \<Rightarrow> string \<Rightarrow> string" where
  "title date volcano = date @ '' ('' @ volcano @ '')''"

definition mark_converted :: "'t world \<Rightarrow> string \<Rightarrow> item \<Rightarrow> item" where
  "mark_converted w output_dir it =
     (if hasExistingFile w output_dir (item_filename it)
      then it\<lparr>item_text := item_text it @ '' '' @ ''(converted)''\<rparr> else it)"

text \<open>
  \<open>read_message\<close> of ToulouseFetcher and of LondonFetcher: the text a fresh VAAParser
  extracts from the page.
\<close>

definition read_message :: "'t world \<Rightarrow> string \<Rightarrow> error + string" where
  "read_message w url =
     (case urlopen_read w url of
        Inl e \<Rightarrow> Inl e
      | Inr html \<Rightarrow>
          (case VAAParser_feed w VAAParser_init (try_decode w html) of
             Inl e \<Rightarrow> Inl e
           | Inr p \<Rightarrow> Inr (vaa_text p)))"

text \<open>
  The three fetch loops have one shape: the body builds an item, skips the entry
  (\<open>Inr None\<close>) or raises; an item is added to \<open>vaaList\<close> and counted, and the loop breaks
  when the count equals \<open>number_to_fetch\<close>. The result is the items added to \<open>vaaList\<close>
  and the exception that ended the loop, if one did.
\<close>

fun fetch_loop ::
  "('a \<Rightarrow> error + item option) \<Rightarrow> nat \<Rightarrow> nat \<Rightarrow> 'a list \<Rightarrow> item list \<times> error option" where
  "fetch_loop body number_to_fetch count [] = ([], None)"
| "fetch_loop body number_to_fetch count (x # xs) =
     (case body x of
        Inl e \<Rightarrow> ([], Some e)
      | Inr None \<Rightarrow> fetch_loop body number_to_fetch count xs
      | Inr (Some it) \<Rightarrow>
          (if count + 1 = number_to_fetch then ([it], None)
           else (case fetch_loop body number_to_fetch (count + 1) xs of
                   (its, r) \<Rightarrow> (it # its, r))))"

section \<open>ToulouseFetcher\<close>

definition Toulouse_url :: string where
  "Toulouse_url = ''http://vaac.meteo.fr/advisory/''"

definition Toulouse_number_to_fetch :: nat where
  "Toulouse_number_to_fetch = 10"

definition Toulouse_body ::
  "'t world \<Rightarrow> string \<Rightarrow> string option \<times> string \<times> string \<Rightarrow> error + item option" where
  "Toulouse_body w output_dir a =
     (case a of (href0, volcano, date) \<Rightarrow>
        (case href0 of
           None \<Rightarrow> Inl AttributeError
         | Some href \<Rightarrow>
             (let info = split (CHR ''/'') href
              in case getitem info (- 2) of
                   Inl e \<Rightarrow> Inl e
                 | Inr seg \<Rightarrow>
                     (case read_message w href of
                        Inl e \<Rightarrow> Inl e
                      | Inr content \<Rightarrow>
                          Inr (Some (mark_converted w output_dir
                            \<lparr>item_text = title date volcano,
                             item_filename = ''toulouse.'' @ seg @ ''.html'',
                             item_url = href,
                             item_content = Some content,
                             item_vag = Some (join ''/'' (take (length info - 2) info)
                                              @ ''/'' @ seg @ ''_vag.png'')\<rparr>))))))"

definition Toulouse_fetch :: "'t world \<Rightarrow> string \<Rightarrow> item list \<times> error option" where
  "Toulouse_fetch w output_dir =
     (case urlopen_read w Toulouse_url of
        Inl e \<Rightarrow> ([], Some e)
      | Inr html \<Rightarrow>
          (case ListParser_feed w ListParser_init html of
             Inl e \<Rightarrow> ([], Some e)
           | Inr p \<Rightarrow>
               fetch_loop (Toulouse_body w output_dir) Toulouse_number_to_fetch 0 (lp_anchors p)))"

section \<open>AnchorageFetcher\<close>

definition Anchorage_url :: string where
  "Anchorage_url = ''http://vaac.arh.noaa.gov/list_vaas.php''"

definition Anchorage_number_to_fetch :: nat where
  "Anchorage_number_to_fetch = 10"

text \<open>
  \<open>text == "X" and href.split("/")[-2] == "VAA"\<close>: the second operand is only evaluated
  when the first holds.
\<close>

definition Anchorage_filter :: "string option \<Rightarrow> string \<Rightarrow> error + bool" where
  "Anchorage_filter href0 text =
     (if text = ''X'' then
        (case href0 of
           None \<Rightarrow> Inl AttributeError
         | Some href \<Rightarrow>
             (case getitem (split (CHR ''/'') href) (- 2) of
                Inl e \<Rightarrow> Inl e
              | Inr seg \<Rightarrow> Inr (seg = ''VAA'')))
      else Inr False)"

text \<open>
  \<open>table_text[0]\<close> is the list of chunks of the row's first cell (\<open>Parser.handle_endtag\<close>
  appends the list \<open>self.text\<close> to the row), and \<open>datetime.strptime\<close> raises \<open>TypeError\<close>
  for a first argument that is not a \<open>str\<close>. No statement after that call is reached.
\<close>

definition Anchorage_body ::
  "'t world \<Rightarrow> string \<Rightarrow> string option \<times> string list \<times> string list list \<Rightarrow> error + item option" where
  "Anchorage_body w output_dir a =
     (case a of (href0, text0, table_text) \<Rightarrow>
        (let text = concat text0
         in case Anchorage_filter href0 text of
              Inl e \<Rightarrow> Inl e
            | Inr False \<Rightarrow> Inr None
            | Inr True \<Rightarrow>
                (case getitem table_text 0 of
                   Inl e \<Rightarrow> Inl e
                 | Inr chunks \<Rightarrow> Inl TypeError)))"

definition Anchorage_fetch :: "'t world \<Rightarrow> string \<Rightarrow> item list \<times> error option" where
  "Anchorage_fetch w output_dir =
     (case urlopen_read w Anchorage_url of
        Inl e \<Rightarrow> ([], Some e)
      | Inr html \<Rightarrow>
          (case Parser_feed w Parser_init html of
             Inl e \<Rightarrow> ([], Some e)
           | Inr p \<Rightarrow>
               fetch_loop (Anchorage_body w output_dir) Anchorage_number_to_fetch 0
                 (Parser_anchors p)))"

section \<open>LondonFetcher\<close>

definition London_url :: string where
  "London_url = ''http://www.metoffice.gov.uk/aviation/vaac/vaacuk.html''"

definition London_number_to_fetch :: nat where
  "London_number_to_fetch = 10"

text \<open>
  The bare \<open>except: continue\<close> around the \<open>strptime\<close> call also catches the \<open>IndexError\<close> of
  \<open>row[1]\<close>. The set \<open>urls\<close> of the source is never read or written.
\<close>

definition London_body :: "'t world \<Rightarrow> string \<Rightarrow> cell list \<Rightarrow> error + item option" where
  "London_body w output_dir row =
     (case getitem row 0 of
        Inl e \<Rightarrow> Inl e
      | Inr c0 \<Rightarrow>
          (case (case getitem row 1 of
                   Inl e \<Rightarrow> None
                 | Inr c1 \<Rightarrow> strptime w (cell_text c1) ''%H:%M on %d %b %Y'') of
             None \<Rightarrow> Inr None
           | Some date \<Rightarrow>
               (case getitem row 2 of
                  Inl e \<Rightarrow> Inl e
                | Inr c2 \<Rightarrow>
                    (case urljoin w London_url (cell_href c2) of
                       Inl e \<Rightarrow> Inl e
                     | Inr advisory_url \<Rightarrow>
                         (case getitem row 3 of
                            Inl e \<Rightarrow> Inl e
                          | Inr c3 \<Rightarrow>
                              (case urljoin w London_url (cell_href c3) of
                                 Inl e \<Rightarrow> Inl e
                               | Inr graphic_url \<Rightarrow>
                                   (case read_message w advisory_url of
                                      Inl e \<Rightarrow> Inl e
                                    | Inr content \<Rightarrow>
                                        Inr (Some (mark_converted w output_dir
                                          \<lparr>item_text = title (dt_str w date) (cell_text c0),
                                           item_filename =
                                             ''london.'' @ strftime w date ''%Y%m%d%H%M'',
                                           item_url = advisory_url,
                                           item_content = Some content,
                                           item_vag = Some graphic_url\<rparr>)))))))))"

definition London_fetch :: "'t world \<Rightarrow> string \<Rightarrow> item list \<times> error option" where
  "London_fetch w output_dir =
     (case urlopen_read w London_url of
        Inl e \<Rightarrow> ([], Some e)
      | Inr html \<Rightarrow>
          (case TableParser_feed w TableParser_init (try_decode w html) of
             Inl e \<Rightarrow> ([], Some e)
           | Inr p \<Rightarrow>
               fetch_loop (London_body w output_dir) London_number_to_fetch 0 (tp_rows p)))"

section \<open>TestFetcher\<close>

definition Test_url :: string where
  "Test_url = ''https://github.com/metno/fetch-vaa/raw/master/files/london-201511101500.vaa.txt''"

definition Test_number_to_fetch :: nat where
  "Test_number_to_fetch = 1"

text \<open>The loop over the lines: the last \<open>DTG:\<close> and \<open>VOLCANO:\<close> lines win.\<close>

fun Test_lines :: "'t world \<Rightarrow> 't \<times> string \<Rightarrow> string list \<Rightarrow> error + 't \<times> string" where
  "Test_lines w (date, volcano) [] = Inr (date, volcano)"
| "Test_lines w (date, volcano) (line # lines) =
     (case (if startswith line ''DTG:''
            then (case strptime w (lstrip (drop 4 line)) ''%Y%m%d/%H%MZ'' of
                    None \<Rightarrow> Inl ValueError
                  | Some d \<Rightarrow> Inr d)
            else Inr date) of
        Inl e \<Rightarrow> Inl e
      | Inr date1 \<Rightarrow>
          Test_lines w
            (date1, if startswith line ''VOLCANO:'' then lstrip (drop 8 line) else volcano) lines)"

text \<open>
  When decoding failed, \<open>text\<close> is still \<open>bytes\<close> and \<open>text.split("\\n")\<close> raises
  \<open>TypeError\<close>. TestFetcher never reads its \<open>number_to_fetch\<close>: it adds one item.
\<close>

definition Test_fetch :: "'t world \<Rightarrow> string \<Rightarrow> item list \<times> error option" where
  "Test_fetch w output_dir =
     (case urlopen_read w Test_url of
        Inl e \<Rightarrow> ([], Some e)
      | Inr text0 \<Rightarrow>
          (case try_decode w text0 of
             Bytes b \<Rightarrow> ([], Some TypeError)
           | Str text \<Rightarrow>
               (case Test_lines w (dt_now w, ''Unknown'') (split newline text) of
                  Inl e \<Rightarrow> ([], Some e)
                | Inr (date, volcano) \<Rightarrow>
                    ([mark_converted w output_dir
                       \<lparr>item_text = title (strftime w date ''%Y-%m-%d %H:%M:%S'') volcano,
                        item_filename = ''test.'' @ strftime w date ''%Y%m%d%H%M'',
                        item_url = Test_url,
                        item_content = Some text,
                        item_vag = None\<rparr>], None))))"

section \<open>Vocabulary of the properties\<close>

text \<open>
  What a pattern denotes, independently of the order in which \<open>alts\<close> tries things:
  \<open>matches r w gs\<close> says that \<open>r\<close> matches exactly the text \<open>w\<close>, closing the groups \<open>gs\<close>.
\<close>

fun matches :: "re \<Rightarrow> string \<Rightarrow> string list \<Rightarrow> bool" where
  "matches (Lit p) w gs = (w = p \<and> gs = [])"
| "matches (Cls c) w gs = (\<exists>x. w = [x] \<and> c x \<and> gs = [])"
| "matches (Opt r) w gs = (matches r w gs \<or> (w = [] \<and> gs = []))"
| "matches (Star c) w gs = (list_all c w \<and> gs = [])"
| "matches (Plus c) w gs = (w \<noteq> [] \<and> list_all c w \<and> gs = [])"
| "matches (LazyStar c) w gs = (list_all c w \<and> gs = [])"
| "matches (Seq a b) w gs =
     (\<exists>w1 w2 g1 g2. w = w1 @ w2 \<and> gs = g1 @ g2 \<and> matches a w1 g1 \<and> matches b w2 g2)"
| "matches (Grp r) w gs = (\<exists>g1. matches r w g1 \<and> gs = g1 @ [w])"

text \<open>\<open>p in s\<close>: the text \<open>s\<close> contains the phrase \<open>p\<close>.\<close>

fun contains :: "string \<Rightarrow> string \<Rightarrow> bool" where
  "contains [] p = (p = [])"
| "contains (c # cs) p = (startswith (c # cs) p \<or> contains cs p)"

text \<open>A text of the shape \<open>YYYY-MM-DD HH:MM\<close>, every letter a digit.\<close>

definition is_timestamp :: "string \<Rightarrow> bool" where
  "is_timestamp s =
     list_all2 (\<lambda>c t. if t = CHR ''d'' then is_digit c else c = t) s ''dddd-dd-dd dd:dd''"

fun is_starttag :: "event \<Rightarrow> bool" where
  "is_starttag (StartTag tag attrs) = True"
| "is_starttag _ = False"

fun is_data :: "event \<Rightarrow> bool" where
  "is_data (Data d) = True"
| "is_data _ = False"


text \<open>An advisory: heading, body and closing line.\<close>

abbreviation advisory_example :: string where
  "advisory_example \<equiv>
     ''VA ADVISORY Ash cloud observed at FL350. NXT ADVISORY: NO FURTHER ADVISORIES'' @ [newline]"

text \<open>
  The file name the existing-file check is said to look for: the last path segment of
  \<open>href\<close>, with every \<open>.html\<close> replaced by \<open>.kml\<close> when the segment ends in \<open>.html\<close>, and
  with \<open>.kml\<close> appended otherwise.
\<close>

definition kml_name :: "string \<Rightarrow> string" where
  "kml_name href =
     (let segment = last (split (CHR ''/'') href)
      in if endswith segment ''.html'' then replace ''.html'' ''.kml'' segment
         else segment @ ''.kml'')"

text \<open>
  A world to run the fetchers in. The four list pages are the empty \<open>bytes\<close> and scan to
  the given events; every other URL is an advisory page. Decoding fails, one timestamp
  parses, and no file exists.
\<close>

definition sample_world :: "event list \<Rightarrow> nat world" where
  "sample_world evs =
     \<lparr>bytes_decode = (\<lambda>b. None),
      html_events = (\<lambda>b. Inr (if b = Bytes [] then evs
                               else [Data ''VA ADVISORY DTG: 20200501/1200Z'', EndTag ''p''])),
      urlopen_read = (\<lambda>u. Inr (Bytes (if u \<in> set [Toulouse_url, Anchorage_url, London_url, Test_url]
                                        then [] else [1]))),
      strptime = (\<lambda>s f. if s = ''12:00 on 01 May 2020'' then Some 0 else None),
      strftime = (\<lambda>t f. ''202005011200''),
      dt_str = (\<lambda>t. ''2020-05-01 12:00:00''),
      dt_now = 0,
      urljoin = (\<lambda>b h. Inr (case h of None \<Rightarrow> b | Some u \<Rightarrow> if u = [] then b else u)),
      path_exists = (\<lambda>p. False)\<rparr>"

text \<open>List pages of the three sites.\<close>

definition toulouse_page :: "nat \<Rightarrow> string \<Rightarrow> event list" where
  "toulouse_page k href =
     StartTag ''ul'' []
     # concat (replicate k
         [StartTag ''li'' [], StartTag ''a'' [(''href'', Some href)],
          Data ''Volcano X - 2020-05-01 12:00 utc'', EndTag ''a'', EndTag ''li''])
     @ [EndTag ''ul'']"

definition table_row :: "string list \<Rightarrow> string \<Rightarrow> event list" where
  "table_row cells href =
     StartTag ''tr'' []
     # concat (map (\<lambda>c. [StartTag ''td'' [], Data c, EndTag ''td'']) cells)
     @ [StartTag ''td'' [], StartTag ''a'' [(''href'', Some href)], Data ''X'', EndTag ''a'',
        EndTag ''td'', EndTag ''tr'']"

text \<open>
  When the body of LondonFetcher's loop has nothing unguarded to fail on: the row gives
  no timestamp (it has fewer than two cells, or its second cell does not parse) and is
  skipped, or it has four cells, \<open>urljoin\<close> resolves the links of the third and fourth,
  and the advisory page can be read.
\<close>

definition London_row_safe :: "'t world \<Rightarrow> cell list \<Rightarrow> bool" where
  "London_row_safe w row =
     (length row < 2
      \<or> strptime w (cell_text (row ! 1)) ''%H:%M on %d %b %Y'' = None
      \<or> (4 \<le> length row
          \<and> (case urljoin w London_url (cell_href (row ! 2)) of
                Inl e \<Rightarrow> False
              | Inr advisory_url \<Rightarrow> \<not> isl (read_message w advisory_url))
          \<and> \<not> isl (urljoin w London_url (cell_href (row ! 3)))))"

text \<open>
  The same for ToulouseFetcher: the \<open>href\<close> is a string with at least two path segments
  and its page can be read.
\<close>

definition Toulouse_entry_safe :: "'t world \<Rightarrow> string option \<times> string \<times> string \<Rightarrow> bool" where
  "Toulouse_entry_safe w a =
     (case fst a of
        None \<Rightarrow> False
      | Some href \<Rightarrow> CHR ''/'' \<in> set href \<and> \<not> isl (read_message w href))"

text \<open>
  A world that behaves as the libraries do where the program depends on it: the scanner
  raises \<open>TypeError\<close> on \<open>bytes\<close>, a URL without scheme cannot be opened, one byte
  sequence does not decode. The list pages decode to \<open>list\<close> and scan to the given
  events; every other page is an advisory.
\<close>

definition web_world :: "event list \<Rightarrow> nat world" where
  "web_world evs =
     \<lparr>bytes_decode = (\<lambda>b. if b = [255] then None
                            else Some (if b = [] then ''list'' else ''advisory'')),
      html_events = (\<lambda>buf. case buf of
                              Bytes b \<Rightarrow> Inl TypeError
                            | Str s \<Rightarrow> Inr (if s = ''list'' then evs
                                           else [Data ''VA ADVISORY DTG: 20200501/1200Z'',
                                                 EndTag ''p''])),
      urlopen_read = (\<lambda>u. if startswith u ''http://'' \<or> startswith u ''https://''
                           then Inr (Bytes (if u \<in> set [Toulouse_url, Anchorage_url, London_url,
                                                         Test_url]
                                            then [] else [1]))
                           else Inl ValueError),
      strptime = (\<lambda>s f. if s = ''12:00 on 01 May 2020'' then Some 0 else None),
      strftime = (\<lambda>t f. ''202005011200''),
      dt_str = (\<lambda>t. ''2020-05-01 12:00:00''),
      dt_now = 0,
      urljoin = (\<lambda>b h. Inr (case h of
                               None \<Rightarrow> b
                             | Some u \<Rightarrow> if u = [] then b
                                        else if startswith u ''http'' then u
                                        else ''http://www.metoffice.gov.uk'' @ u)),
      path_exists = (\<lambda>p. False)\<rparr>"

text \<open>A row of the London table: volcano, date, advisory link, graphics link.\<close>

definition london_row :: "string \<Rightarrow> string \<Rightarrow> string \<Rightarrow> string \<Rightarrow> event list" where
  "london_row volcano date vaa graphic =
     [StartTag ''tr'' [],
      StartTag ''td'' [], Data volcano, EndTag ''td'',
      StartTag ''td'' [], Data date, EndTag ''td'',
      StartTag ''td'' [], StartTag ''a'' [(''href'', Some vaa)], Data ''VAA'', EndTag ''a'',
      EndTag ''td'',
      StartTag ''td'' [], StartTag ''a'' [(''href'', Some graphic)], Data ''VAG'', EndTag ''a'',
      EndTag ''td'',
      EndTag ''tr'']"

section \<open>The matcher finds what the pattern denotes\<close>

lemma take_takeWhile_all: "k \<le> length (takeWhile c s) \<Longrightarrow> list_all c (take k s)"
proof (induction s arbitrary: k)
  case Nil
  then show ?case by simp
next
  case (Cons x xs)
  then show ?case by (cases k) (auto split: if_splits)
qed

lemma takeWhile_le_length: "length (takeWhile c s) \<le> length s"
  by (induction s) auto

lemma alts_sound:
  "(t, g') \<in> set (alts r (s, g)) \<Longrightarrow> \<exists>w gs. s = w @ t \<and> g' = g @ gs \<and> matches r w gs"
proof (induction r arbitrary: s g t g')
  case (Lit p)
  then have "take (length p) s = p" and "t = drop (length p) s" and "g' = g"
    by (auto simp: startswith_def split: if_splits)
  then have "s = p @ t" by (metis append_take_drop_id)
  then show ?case using \<open>g' = g\<close> by simp
next
  case (Cls c)
  then show ?case by (cases s) (auto split: if_splits)
next
  case (Opt r)
  then show ?case by fastforce
next
  case (Star c)
  then obtain k where k: "k \<le> length (takeWhile c s)" "t = drop k s" "g' = g"
    by (auto simp del: upt_Suc simp: less_Suc_eq_le)
  have "s = take k s @ t \<and> g' = g @ [] \<and> matches (Star c) (take k s) []"
    using k take_takeWhile_all[OF k(1)] by simp
  then show ?case by blast
next
  case (Plus c)
  then obtain k where k: "k \<le> length (takeWhile c s)" "1 \<le> k" "t = drop k s" "g' = g"
    by (auto simp del: upt_Suc simp: less_Suc_eq_le)
  have "take k s \<noteq> []" using k takeWhile_le_length[of c s] by auto
  then have "s = take k s @ t \<and> g' = g @ [] \<and> matches (Plus c) (take k s) []"
    using k take_takeWhile_all[OF k(1)] by simp
  then show ?case by blast
next
  case (LazyStar c)
  then obtain k where k: "k \<le> length (takeWhile c s)" "t = drop k s" "g' = g"
    by (auto simp del: upt_Suc simp: less_Suc_eq_le)
  have "s = take k s @ t \<and> g' = g @ [] \<and> matches (LazyStar c) (take k s) []"
    using k take_takeWhile_all[OF k(1)] by simp
  then show ?case by blast
next
  case (Seq a b)
  then obtain u gu where 1: "(u, gu) \<in> set (alts a (s, g))" and 2: "(t, g') \<in> set (alts b (u, gu))"
    by auto
  from Seq.IH(1)[OF 1] obtain w1 g1 where a: "s = w1 @ u" "gu = g @ g1" "matches a w1 g1" by blast
  from Seq.IH(2)[OF 2] obtain w2 g2 where b: "u = w2 @ t" "g' = gu @ g2" "matches b w2 g2" by blast
  have "s = (w1 @ w2) @ t" "g' = g @ (g1 @ g2)" using a b by auto
  then show ?case using a b by (metis matches.simps(7))
next
  case (Grp r)
  then obtain g1 where 1: "(t, g1) \<in> set (alts r (s, g))" and 2: "g' = g1 @ [take (length s - length t) s]"
    by auto
  from Grp.IH[OF 1] obtain w gs where a: "s = w @ t" "g1 = g @ gs" "matches r w gs" by blast
  then have "take (length s - length t) s = w" by simp
  then show ?case using a 2 by auto
qed

lemma alts_complete:
  "matches r w gs \<Longrightarrow> (t, g @ gs) \<in> set (alts r (w @ t, g))"
proof (induction r arbitrary: w gs t g)
  case (Lit p)
  then show ?case by (simp add: startswith_def)
next
  case (Cls c)
  then show ?case by auto
next
  case (Opt r)
  then show ?case by auto
next
  case (Star c)
  then have "takeWhile c (w @ t) = w @ takeWhile c t" by (simp add: list_all_iff)
  then have "length w \<in> set [0..<Suc (length (takeWhile c (w @ t)))]" by simp
  then have "(drop (length w) (w @ t), g) \<in> set (alts (Star c) (w @ t, g))"
    by (simp add: image_iff del: upt_Suc) force
  then show ?case using Star by simp
next
  case (Plus c)
  then have "takeWhile c (w @ t) = w @ takeWhile c t" by (simp add: list_all_iff)
  moreover have "1 \<le> length w" using Plus by (cases w) auto
  ultimately have "length w \<in> set [1..<Suc (length (takeWhile c (w @ t)))]"
    by (simp del: upt_Suc)
  then have "(drop (length w) (w @ t), g) \<in> set (alts (Plus c) (w @ t, g))"
    by (simp add: image_iff del: upt_Suc) force
  then show ?case using Plus by simp
next
  case (LazyStar c)
  then have "takeWhile c (w @ t) = w @ takeWhile c t" by (simp add: list_all_iff)
  then have "length w \<in> set [0..<Suc (length (takeWhile c (w @ t)))]" by simp
  then have "(drop (length w) (w @ t), g) \<in> set (alts (LazyStar c) (w @ t, g))"
    by (simp add: image_iff del: upt_Suc) force
  then show ?case using LazyStar by simp
next
  case (Seq a b)
  then obtain w1 w2 g1 g2 where s: "w = w1 @ w2" "gs = g1 @ g2" "matches a w1 g1" "matches b w2 g2"
    by auto
  have 1: "(w2 @ t, g @ g1) \<in> set (alts a (w1 @ (w2 @ t), g))" using Seq.IH(1)[OF s(3)] .
  have 2: "(t, (g @ g1) @ g2) \<in> set (alts b (w2 @ t, g @ g1))" using Seq.IH(2)[OF s(4)] .
  show ?case using 1 2 s by force
next
  case (Grp r)
  then obtain g1 where s: "matches r w g1" "gs = g1 @ [w]" by auto
  have "(t, g @ g1) \<in> set (alts r (w @ t, g))" using Grp.IH[OF s(1)] .
  then show ?case using s by force
qed

lemma contains_iff: "contains s p \<longleftrightarrow> (\<exists>pre post. s = pre @ p @ post)"
proof (induction s)
  case Nil
  then show ?case by auto
next
  case (Cons c cs)
  show ?case
  proof
    assume "contains (c # cs) p"
    then consider "startswith (c # cs) p" | "contains cs p" by auto
    then show "\<exists>pre post. c # cs = pre @ p @ post"
    proof cases
      case 1
      then have "c # cs = [] @ p @ drop (length p) (c # cs)"
        unfolding startswith_def by (metis append_Nil append_take_drop_id)
      then show ?thesis by blast
    next
      case 2
      then obtain pre post where "cs = pre @ p @ post" using Cons.IH by blast
      then have "c # cs = (c # pre) @ p @ post" by simp
      then show ?thesis by blast
    qed
  next
    assume "\<exists>pre post. c # cs = pre @ p @ post"
    then obtain pre post where e: "c # cs = pre @ p @ post" by blast
    show "contains (c # cs) p"
    proof (cases pre)
      case Nil
      then have "startswith (c # cs) p" using e by (simp add: startswith_def)
      then show ?thesis by simp
    next
      case (Cons a pre')
      then have "cs = pre' @ p @ post" using e by simp
      then show ?thesis using Cons.IH by auto
    qed
  qed
qed

lemma re_match_Some:
  assumes "re_match r s = Some (n, g)"
  shows "\<exists>w t. s = w @ t \<and> length w = n \<and> matches r w g"
proof -
  from assms obtain t rest where a: "alts r (s, []) = (t, g) # rest" and n: "n = length s - length t"
    by (auto simp: re_match_def split: list.splits)
  then have "(t, g) \<in> set (alts r (s, []))" by simp
  from alts_sound[OF this] obtain w where "s = w @ t" "matches r w g" by auto
  then show ?thesis using n by auto
qed

lemma re_match_None:
  assumes "re_match r (w @ t) = None"
  shows "\<not> matches r w gs"
proof
  assume "matches r w gs"
  from alts_complete[OF this, of t "[]"] have "alts r (w @ t, []) \<noteq> []" by auto
  then show False using assms by (auto simp: re_match_def split: list.splits)
qed

lemma search_from_Some:
  "search_from r i s = Some (st, e, g) \<Longrightarrow>
     \<exists>pre w post. s = pre @ w @ post \<and> st = i + length pre \<and> e = st + length w \<and> matches r w g"
proof (induction r i s rule: search_from.induct)
  case (1 r i s)
  show ?case
  proof (cases "re_match r s")
    case (Some ng)
    obtain n g' where ng: "ng = (n, g')" by (cases ng)
    with Some 1(2) have eq: "st = i" "e = i + n" "g = g'" by (auto simp: search_from.simps)
    from re_match_Some[OF Some[unfolded ng]] obtain w t where "s = w @ t" "length w = n" "matches r w g'"
      by blast
    then have "s = [] @ w @ t \<and> st = i + length ([]::string) \<and> e = st + length w \<and> matches r w g"
      using eq by simp
    then show ?thesis by blast
  next
    case None
    show ?thesis
    proof (cases s)
      case Nil
      with None 1(2) show ?thesis by (simp add: search_from.simps)
    next
      case (Cons c s')
      with None 1(2) have "search_from r (Suc i) s' = Some (st, e, g)" by (simp add: search_from.simps)
      from 1(1)[OF None Cons this] obtain pre w post where
        "s' = pre @ w @ post" "st = Suc i + length pre" "e = st + length w" "matches r w g" by blast
      then have "s = (c # pre) @ w @ post \<and> st = i + length (c # pre) \<and> e = st + length w \<and> matches r w g"
        using Cons by simp
      then show ?thesis by blast
    qed
  qed
qed

lemma search_from_None:
  "search_from r i (pre @ w @ post) = None \<Longrightarrow> \<not> matches r w gs"
proof (induction pre arbitrary: i)
  case Nil
  then have "re_match r (w @ post) = None"
    by (auto simp: search_from.simps split: option.splits)
  then show ?case by (rule re_match_None)
next
  case (Cons c pre)
  then have "search_from r (Suc i) (pre @ w @ post) = None"
    by (auto simp: search_from.simps split: option.splits)
  then show ?case by (rule Cons.IH)
qed

lemma re_search_Some:
  "re_search r s = Some (st, e, g) \<Longrightarrow>
     \<exists>w. s = take st s @ w @ drop e s \<and> e = st + length w \<and> matches r w g"
proof -
  assume "re_search r s = Some (st, e, g)"
  then obtain pre w post where "s = pre @ w @ post" "st = length pre" "e = st + length w" "matches r w g"
    using search_from_Some[of r 0 s st e g] by (auto simp: re_search_def)
  then show ?thesis by auto
qed

lemma re_search_None: "re_search r (pre @ w @ post) = None \<Longrightarrow> \<not> matches r w gs"
  unfolding re_search_def by (rule search_from_None)

lemma matches_va:
  "matches va_advisory_re w gs \<longleftrightarrow>
     (w = ''VA ADVISORY'' \<and> gs = []) \<or> (w = ''VA EXTENDED ADVISORY'' \<and> gs = [''EXTENDED ''])"
  by (auto simp: va_advisory_re_def re_seq_def)

lemma matches_Seq_Cls:
  "matches (Seq (Cls c) r) w gs \<longleftrightarrow> (\<exists>x w'. w = x # w' \<and> c x \<and> matches r w' gs)"
proof
  assume "matches (Seq (Cls c) r) w gs"
  then show "\<exists>x w'. w = x # w' \<and> c x \<and> matches r w' gs" by auto
next
  assume "\<exists>x w'. w = x # w' \<and> c x \<and> matches r w' gs"
  then obtain x w' where "w = [x] @ w'" "gs = [] @ gs" "matches (Cls c) [x] []" "matches r w' gs"
    by auto
  then show "matches (Seq (Cls c) r) w gs" unfolding matches.simps(7) by blast
qed

lemma matches_Seq_Lit:
  "matches (Seq (Lit p) r) w gs \<longleftrightarrow> (\<exists>w'. w = p @ w' \<and> matches r w' gs)"
  by auto

lemma matches_timestamp: 
  "matches (re_seq [Cls is_digit, Cls is_digit, Cls is_digit, Cls is_digit, Lit ''-'',
                    Cls is_digit, Cls is_digit, Lit ''-'', Cls is_digit, Cls is_digit, Lit '' '',
                    Cls is_digit, Cls is_digit, Lit '':'', Cls is_digit, Cls is_digit]) w gs
   \<longleftrightarrow> is_timestamp w \<and> gs = []"
  unfolding re_seq_def foldr.simps o_def matches_Seq_Cls matches_Seq_Lit is_timestamp_def
  by (auto simp: list_all2_Cons2)

lemma matches_toulouse:
  "matches toulouse_re w gs \<longleftrightarrow>
     (\<exists>desc date. w = desc @ '' - '' @ date @ '' utc'' \<and> gs = [desc, date]
        \<and> newline \<notin> set desc \<and> is_timestamp date)"
proof -
  have "matches toulouse_re w gs \<longleftrightarrow>
     (\<exists>desc date. w = desc @ '' - '' @ date @ '' utc'' \<and> gs = [desc, date]
        \<and> list_all is_dot desc \<and> is_timestamp date)"
    unfolding toulouse_re_def
    apply (subst re_seq_def)
    apply (simp add: matches_timestamp)
    apply (rule iffI)
     apply (elim exE conjE)
     apply simp
    apply (elim exE conjE)
    apply simp
    done
  then show ?thesis by (auto simp: list_all_iff is_dot_def)
qed

section \<open>VAAParser: what the two states do\<close>

lemma re_search_va_None_iff:
  "re_search va_advisory_re s = None \<longleftrightarrow>
     \<not> contains s ''VA ADVISORY'' \<and> \<not> contains s ''VA EXTENDED ADVISORY''"
proof
  assume n: "re_search va_advisory_re s = None"
  show "\<not> contains s ''VA ADVISORY'' \<and> \<not> contains s ''VA EXTENDED ADVISORY''"
  proof (rule ccontr)
    assume "\<not> ?thesis"
    then obtain pre w post gs where "s = pre @ w @ post" "matches va_advisory_re w gs"
      unfolding contains_iff matches_va by blast
    then show False using re_search_None n by blast
  qed
next
  assume c: "\<not> contains s ''VA ADVISORY'' \<and> \<not> contains s ''VA EXTENDED ADVISORY''"
  show "re_search va_advisory_re s = None"
  proof (cases "re_search va_advisory_re s")
    case None
    then show ?thesis .
  next
    case (Some r)
    obtain st e g where "r = (st, e, g)" by (cases r)
    with Some re_search_Some obtain w where "s = take st s @ w @ drop e s" "matches va_advisory_re w g"
      by blast
    then have "contains s ''VA ADVISORY'' \<or> contains s ''VA EXTENDED ADVISORY''"
      unfolding contains_iff matches_va by metis
    with c show ?thesis by simp
  qed
qed

lemma strip_infix: "\<exists>a b. d = a @ strip d @ b"
proof -
  have 1: "d = takeWhile is_space d @ lstrip d" by (simp add: lstrip_def)
  have "rev (lstrip d) = takeWhile is_space (rev (lstrip d)) @ dropWhile is_space (rev (lstrip d))"
    by simp
  then have "lstrip d = rev (dropWhile is_space (rev (lstrip d))) @ rev (takeWhile is_space (rev (lstrip d)))"
    by (metis rev_append rev_rev_ident)
  then have 2: "lstrip d = strip d @ rev (takeWhile is_space (rev (lstrip d)))"
    by (simp add: strip_def rstrip_def)
  from 1 2 show ?thesis by metis
qed

lemma contains_strip: "contains (strip d) p \<Longrightarrow> contains d p"
proof -
  assume "contains (strip d) p"
  then obtain pre post where s: "strip d = pre @ p @ post" unfolding contains_iff by blast
  obtain a b where "d = a @ strip d @ b" using strip_infix by blast
  then have "d = (a @ pre) @ p @ (post @ b)" using s by simp
  then show ?thesis unfolding contains_iff by blast
qed

lemma VAAParser_events_Nil [simp]: "VAAParser_events p [] = p"
  by (simp add: VAAParser_events_def)

lemma VAAParser_events_Cons [simp]:
  "VAAParser_events p (ev # evs) = VAAParser_events (VAAParser_handle p ev) evs"
  by (simp add: VAAParser_events_def)

lemma VAAParser_events_append [simp]:
  "VAAParser_events p (evs1 @ evs2) = VAAParser_events (VAAParser_events p evs1) evs2"
  by (simp add: VAAParser_events_def)

lemma va_search_Nil: "re_search va_advisory_re [] = None"
  by (simp add: re_search_va_None_iff)

lemma inactive_data:
  "\<not> vaa_active p \<Longrightarrow>
     VAAParser_handle_data p d =
       (case re_search va_advisory_re (strip d) of
          None \<Rightarrow> p
        | Some (start, e, g) \<Rightarrow> p\<lparr>vaa_active := True, vaa_text := drop start (strip d)\<rparr>)"
  by (cases "strip d") (auto simp: VAAParser_handle_data_def va_search_Nil split: option.splits)

lemma inactive_other:
  "\<not> vaa_active p \<Longrightarrow> \<not> is_data ev \<Longrightarrow> VAAParser_handle p ev = p"
  by (cases ev) (auto simp: VAAParser_handle_endtag_def)

lemma inactive_stays:
  "\<not> vaa_active p \<Longrightarrow>
   \<forall>d. Data d \<in> set evs \<longrightarrow> re_search va_advisory_re (strip d) = None \<Longrightarrow>
   VAAParser_events p evs = p"
proof (induction evs)
  case Nil
  then show ?case by simp
next
  case (Cons ev evs)
  have "VAAParser_handle p ev = p"
  proof (cases ev)
    case (Data d)
    then show ?thesis using Cons.prems by (simp add: inactive_data)
  qed (use Cons.prems in \<open>simp_all add: VAAParser_handle_endtag_def\<close>)
  then show ?case using Cons by simp
qed




lemma no_phrase_search:
  "\<not> contains d ''VA ADVISORY'' \<and> \<not> contains d ''VA EXTENDED ADVISORY'' \<Longrightarrow>
     re_search va_advisory_re (strip d) = None"
  unfolding re_search_va_None_iff using contains_strip by blast



text \<open>
  C1, as stated, fails: VAAParser has two states and no third one for "finished". After
  the terminal pattern has matched and the parser is inactive again, a chunk that
  contains the heading phrase activates it once more and replaces the buffer.
\<close>

theorem terminal_state_is_left_again:
  "\<not> vaa_active (VAAParser_events VAAParser_init
        [Data ''VA ADVISORY one NXT ADVISORY: NO FURTHER'', EndTag ''p''])
   \<and> vaa_text (VAAParser_events VAAParser_init
        [Data ''VA ADVISORY one NXT ADVISORY: NO FURTHER'', EndTag ''p''])
       = ''VA ADVISORY one NXT ADVISORY: NO FURTHER'' @ [newline]
   \<and> vaa_text (VAAParser_events VAAParser_init
        [Data ''VA ADVISORY one NXT ADVISORY: NO FURTHER'', EndTag ''p'',
         Data ''later VA ADVISORY two''])
       = ''VA ADVISORY two''"
  by code_simp

text \<open>
  C1, amended. While VAAParser is inactive (in particular after the terminal pattern has
  matched), no tag and no chunk without the phrase \<open>VA ADVISORY\<close> or
  \<open>VA EXTENDED ADVISORY\<close> changes the buffer or the state; a chunk in which the heading
  pattern matches activates the parser and replaces the buffer by that chunk, from the
  start of the match.
\<close>

theorem inactive_until_next_heading:
  assumes "\<not> vaa_active p"
  shows "((\<forall>d. Data d \<in> set evs \<longrightarrow>
              \<not> contains d ''VA ADVISORY'' \<and> \<not> contains d ''VA EXTENDED ADVISORY'')
            \<longrightarrow> VAAParser_events p evs = p)
       \<and> (re_search va_advisory_re (strip d) = Some (start, e, g)
            \<longrightarrow> VAAParser_handle p (Data d) = p\<lparr>vaa_active := True, vaa_text := drop start (strip d)\<rparr>)"
  using assms inactive_stays[of p evs] by (auto simp: inactive_data no_phrase_search)

theorem inactive_until_next_heading_witness:
  "VAAParser_events
      (VAAParser_events VAAParser_init [Data ''VA ADVISORY one NXT ADVISORY: NO FURTHER'', EndTag ''p''])
      [Data ''more text'', EndTag ''p'', Data ''VA''] =
    VAAParser_events VAAParser_init [Data ''VA ADVISORY one NXT ADVISORY: NO FURTHER'', EndTag ''p'']
   \<and> VAAParser_handle
        (VAAParser_events VAAParser_init [Data ''VA ADVISORY one NXT ADVISORY: NO FURTHER'', EndTag ''p''])
        (Data ''later VA ADVISORY two'')
      = \<lparr>vaa_active = True, vaa_text = ''VA ADVISORY two''\<rparr>"
proof -
  let ?p = "VAAParser_events VAAParser_init [Data ''VA ADVISORY one NXT ADVISORY: NO FURTHER'', EndTag ''p'']"
  have p: "?p = \<lparr>vaa_active = False, vaa_text = ''VA ADVISORY one NXT ADVISORY: NO FURTHER'' @ [newline]\<rparr>"
    by code_simp
  have h1: "\<not> vaa_active ?p" by code_simp
  have h2: "\<forall>d. Data d \<in> set [Data ''more text'', EndTag ''p'', Data ''VA''] \<longrightarrow>
              \<not> contains d ''VA ADVISORY'' \<and> \<not> contains d ''VA EXTENDED ADVISORY''"
    by (simp add: startswith_def)
  have h3: "re_search va_advisory_re (strip ''later VA ADVISORY two'') = Some (6, 17, [])"
    by code_simp
  have d: "drop 6 (strip ''later VA ADVISORY two'') = ''VA ADVISORY two''" by code_simp
  from inactive_until_next_heading[OF h1, of "[Data ''more text'', EndTag ''p'', Data ''VA'']"
        "''later VA ADVISORY two''" 6 17 "[]"] h2 h3
  show ?thesis unfolding d by (simp add: p)
qed

text \<open>
  C6, as stated, fails: VAAParser looks for the terminal pattern only in \<open>handle_endtag\<close>.
  On a page that consists of the text alone, with no end tag after it, nothing is cut
  and the result keeps \<open>more text after\<close>.
\<close>

theorem page_without_end_tag_keeps_tail:
  "vaa_text (VAAParser_events VAAParser_init
      [Data (''...junk... '' @ advisory_example @ ''more text after'')])
     = advisory_example @ ''more text after''"
  by code_simp

lemma example_activates:
  "VAAParser_handle VAAParser_init (Data (''...junk... '' @ advisory_example @ ''more text after''))
     = \<lparr>vaa_active = True, vaa_text = advisory_example @ ''more text after''\<rparr>"
  by code_simp

lemma example_terminates:
  "VAAParser_handle \<lparr>vaa_active = True, vaa_text = advisory_example @ ''more text after''\<rparr> (EndTag tag)
     = \<lparr>vaa_active = False, vaa_text = advisory_example\<rparr>"
proof -
  have a: "re_search nxt_advisory_re (rstrip (advisory_example @ ''more text after'') @ [newline])
             = Some (41, 77, [])" by code_simp
  have b: "re_search nxt_advisory_re (advisory_example @ ''more text after'') = Some (41, 77, [])"
    by code_simp
  have c: "take 77 (rstrip (advisory_example @ ''more text after'') @ [newline]) = advisory_example"
    by code_simp
  have d: "take 77 (advisory_example @ ''more text after'') = advisory_example"
    by code_simp
  show ?thesis
    using a b c d by (simp add: VAAParser_handle_endtag_def Let_def del: append.simps take_append)
qed

text \<open>
  C6, amended. When the chunk with the text is followed by an end tag (any tag), and no
  other chunk of the page contains \<open>VA ADVISORY\<close> or \<open>VA EXTENDED ADVISORY\<close>, the
  extracted text starts at \<open>VA ADVISORY\<close> and ends right after the newline that ends
  \<open>NXT ADVISORY: NO FURTHER ADVISORIES\<close>. On a page no chunk of which contains either
  phrase, a fresh VAAParser extracts the empty string.
\<close>

theorem example_body_extracted:
  "((\<forall>d. Data d \<in> set before \<union> set after \<longrightarrow>
        \<not> contains d ''VA ADVISORY'' \<and> \<not> contains d ''VA EXTENDED ADVISORY'')
      \<longrightarrow> vaa_text (VAAParser_events VAAParser_init
             (before @ [Data (''...junk... '' @ advisory_example @ ''more text after''), EndTag tag]
                @ after))
          = advisory_example)
   \<and> ((\<forall>d. Data d \<in> set evs \<longrightarrow>
          \<not> contains d ''VA ADVISORY'' \<and> \<not> contains d ''VA EXTENDED ADVISORY'')
      \<longrightarrow> vaa_text (VAAParser_events VAAParser_init evs) = [])"
proof (intro conjI impI)
  assume h: "\<forall>d. Data d \<in> set before \<union> set after \<longrightarrow>
        \<not> contains d ''VA ADVISORY'' \<and> \<not> contains d ''VA EXTENDED ADVISORY''"
  have i: "\<not> vaa_active VAAParser_init" by (simp add: VAAParser_init_def)
  have 1: "VAAParser_events VAAParser_init before = VAAParser_init"
    using h by (intro inactive_stays[OF i]) (auto simp: no_phrase_search)
  let ?q = "\<lparr>vaa_active = False, vaa_text = advisory_example\<rparr>"
  have 2: "VAAParser_events ?q after = ?q"
    using h by (intro inactive_stays) (auto simp: no_phrase_search)
  show "vaa_text (VAAParser_events VAAParser_init
             (before @ [Data (''...junk... '' @ advisory_example @ ''more text after''), EndTag tag]
                @ after)) = advisory_example"
    unfolding VAAParser_events_append 1 VAAParser_events_Cons VAAParser_events_Nil
      example_activates example_terminates 2 by simp
next
  assume h: "\<forall>d. Data d \<in> set evs \<longrightarrow>
        \<not> contains d ''VA ADVISORY'' \<and> \<not> contains d ''VA EXTENDED ADVISORY''"
  have i: "\<not> vaa_active VAAParser_init" by (simp add: VAAParser_init_def)
  have "VAAParser_events VAAParser_init evs = VAAParser_init"
    using h by (intro inactive_stays[OF i]) (auto simp: no_phrase_search)
  then show "vaa_text (VAAParser_events VAAParser_init evs) = []"
    by (simp add: VAAParser_init_def)
qed

theorem example_body_extracted_witness:
  "vaa_text (VAAParser_events VAAParser_init
      ([StartTag ''html'' [], Data ''Volcanic ash'', EndTag ''h1'']
        @ [Data (''...junk... '' @ advisory_example @ ''more text after''), EndTag ''pre'']
        @ [Data ''footer'', EndTag ''html'']))
    = advisory_example
   \<and> vaa_text (VAAParser_events VAAParser_init
        [StartTag ''p'' [], Data ''NO VA  ADVISORY HERE'', EndTag ''p'']) = []"
proof -
  have h1: "\<forall>d. Data d \<in> set [StartTag ''html'' [], Data ''Volcanic ash'', EndTag ''h1'']
               \<union> set [Data ''footer'', EndTag ''html''] \<longrightarrow>
        \<not> contains d ''VA ADVISORY'' \<and> \<not> contains d ''VA EXTENDED ADVISORY''"
    by (auto simp: startswith_def)
  have h2: "\<forall>d. Data d \<in> set [StartTag ''p'' [], Data ''NO VA  ADVISORY HERE'', EndTag ''p''] \<longrightarrow>
        \<not> contains d ''VA ADVISORY'' \<and> \<not> contains d ''VA EXTENDED ADVISORY''"
    by (auto simp: startswith_def)
  show ?thesis
    using example_body_extracted[of "[StartTag ''html'' [], Data ''Volcanic ash'', EndTag ''h1'']"
        "[Data ''footer'', EndTag ''html'']" "''pre''"
        "[StartTag ''p'' [], Data ''NO VA  ADVISORY HERE'', EndTag ''p'']"] h1 h2
    by blast
qed

section \<open>ToulouseFetcher.ListParser: one entry per matching list item\<close>

lemma ListParser_events_Nil [simp]: "ListParser_events p [] = p"
  by (simp add: ListParser_events_def)

lemma ListParser_events_Cons [simp]:
  "ListParser_events p (ev # evs) = ListParser_events (ListParser_handle p ev) evs"
  by (simp add: ListParser_events_def)

lemma re_search_toulouse_Some:
  assumes "re_search toulouse_re t = Some (st, e, g)"
  shows "\<exists>desc date. g = [desc, date] \<and> t = take st t @ desc @ '' - '' @ date @ '' utc'' @ drop e t
           \<and> newline \<notin> set desc \<and> is_timestamp date"
proof -
  from re_search_Some[OF assms] obtain w where
    w: "t = take st t @ w @ drop e t" "matches toulouse_re w g" by blast
  then obtain desc date where "w = desc @ '' - '' @ date @ '' utc''" "g = [desc, date]"
    "newline \<notin> set desc" "is_timestamp date" unfolding matches_toulouse by blast
  then show ?thesis using w(1) by auto
qed

lemma re_search_toulouse_None:
  assumes "re_search toulouse_re t = None"
  shows "\<not> (\<exists>pre desc date post. t = pre @ desc @ '' - '' @ date @ '' utc'' @ post
             \<and> newline \<notin> set desc \<and> is_timestamp date)"
proof
  assume "\<exists>pre desc date post. t = pre @ desc @ '' - '' @ date @ '' utc'' @ post
             \<and> newline \<notin> set desc \<and> is_timestamp date"
  then obtain pre desc date post where
    d: "t = pre @ (desc @ '' - '' @ date @ '' utc'') @ post" "newline \<notin> set desc" "is_timestamp date"
    by auto
  then have "matches toulouse_re (desc @ '' - '' @ date @ '' utc'') [desc, date]"
    unfolding matches_toulouse by blast
  then show False using re_search_None assms d(1) by blast
qed

text \<open>
  C7. When a list item closes inside \<open><ul>\<close>: if the pattern does not match the
  accumulated text (which is the case exactly when the text has no part
  \<open><desc> - <YYYY-MM-DD HH:MM> utc\<close>), no entry is added; if it matches, exactly one
  entry \<open>(href, volcano, date)\<close> is added, the text being
  \<open>... volcano - date utc ...\<close> with \<open>volcano\<close> the description (on one line) and \<open>date\<close>
  the timestamp. The item \<open>Volcano X - 2020-05-01 12:00 utc\<close> with href
  \<open>/adv/123.html\<close> gives the entry \<open>(/adv/123.html, Volcano X, 2020-05-01 12:00)\<close>.
\<close>

theorem list_item_entry:
  assumes "lp_active p"
  shows "(re_search toulouse_re (lp_text p) = None \<longrightarrow>
            lp_anchors (ListParser_handle_endtag p ''li'') = lp_anchors p
          \<and> \<not> (\<exists>pre desc date post. lp_text p = pre @ desc @ '' - '' @ date @ '' utc'' @ post
                   \<and> newline \<notin> set desc \<and> is_timestamp date))
       \<and> (re_search toulouse_re (lp_text p) = Some (st, e, g) \<longrightarrow>
            (\<exists>volcano date.
                lp_anchors (ListParser_handle_endtag p ''li'') = lp_anchors p @ [(lp_href p, volcano, date)]
              \<and> lp_text p = take st (lp_text p) @ volcano @ '' - '' @ date @ '' utc'' @ drop e (lp_text p)
              \<and> newline \<notin> set volcano \<and> is_timestamp date))
       \<and> lp_anchors (ListParser_events ListParser_init
            [StartTag ''ul'' [], StartTag ''li'' [], StartTag ''a'' [(''href'', Some ''/adv/123.html'')],
             Data ''Volcano X - 2020-05-01 12:00 utc'', EndTag ''a'', EndTag ''li'', EndTag ''ul''])
           = [(Some ''/adv/123.html'', ''Volcano X'', ''2020-05-01 12:00'')]"
proof (intro conjI impI)
  assume n: "re_search toulouse_re (lp_text p) = None"
  show "lp_anchors (ListParser_handle_endtag p ''li'') = lp_anchors p"
    using assms n by (simp add: ListParser_handle_endtag_def)
  show "\<not> (\<exists>pre desc date post. lp_text p = pre @ desc @ '' - '' @ date @ '' utc'' @ post
                   \<and> newline \<notin> set desc \<and> is_timestamp date)"
    using re_search_toulouse_None[OF n] .
next
  assume s: "re_search toulouse_re (lp_text p) = Some (st, e, g)"
  from re_search_toulouse_Some[OF s] obtain desc date where
    d: "g = [desc, date]" "lp_text p = take st (lp_text p) @ desc @ '' - '' @ date @ '' utc'' @ drop e (lp_text p)"
       "newline \<notin> set desc" "is_timestamp date" by blast
  have "lp_anchors (ListParser_handle_endtag p ''li'') = lp_anchors p @ [(lp_href p, desc, date)]"
    using assms s d(1) by (simp add: ListParser_handle_endtag_def group_def)
  then show "\<exists>volcano date.
                lp_anchors (ListParser_handle_endtag p ''li'') = lp_anchors p @ [(lp_href p, volcano, date)]
              \<and> lp_text p = take st (lp_text p) @ volcano @ '' - '' @ date @ '' utc'' @ drop e (lp_text p)
              \<and> newline \<notin> set volcano \<and> is_timestamp date"
    using d by blast
next
  show "lp_anchors (ListParser_events ListParser_init
            [StartTag ''ul'' [], StartTag ''li'' [], StartTag ''a'' [(''href'', Some ''/adv/123.html'')],
             Data ''Volcano X - 2020-05-01 12:00 utc'', EndTag ''a'', EndTag ''li'', EndTag ''ul''])
           = [(Some ''/adv/123.html'', ''Volcano X'', ''2020-05-01 12:00'')]"
    by code_simp
qed

theorem list_item_entry_witness:
  "(\<exists>volcano date.
      lp_anchors (ListParser_handle_endtag
          \<lparr>lp_active = True, lp_href = Some ''/adv/123.html'',
           lp_text = ''Volcano X - 2020-05-01 12:00 utc'', lp_anchors = []\<rparr> ''li'')
        = [] @ [(Some ''/adv/123.html'', volcano, date)]
      \<and> newline \<notin> set volcano \<and> is_timestamp date)
   \<and> lp_anchors (ListParser_handle_endtag
          \<lparr>lp_active = True, lp_href = Some ''/about.html'',
           lp_text = ''About these advisories'', lp_anchors = []\<rparr> ''li'') = []"
proof -
  let ?p1 = "\<lparr>lp_active = True, lp_href = Some ''/adv/123.html'',
           lp_text = ''Volcano X - 2020-05-01 12:00 utc'', lp_anchors = []\<rparr>"
  let ?p2 = "\<lparr>lp_active = True, lp_href = Some ''/about.html'',
           lp_text = ''About these advisories'', lp_anchors = []\<rparr>"
  have h1: "lp_active ?p1" by simp
  have h2: "re_search toulouse_re (lp_text ?p1) = Some (0, 32, [''Volcano X'', ''2020-05-01 12:00''])"
    by code_simp
  have h3: "lp_active ?p2" by simp
  have h4: "re_search toulouse_re (lp_text ?p2) = None" by code_simp
  from list_item_entry[OF h1, of 0 32 "[''Volcano X'', ''2020-05-01 12:00'']"] h2
  have a: "\<exists>volcano date.
      lp_anchors (ListParser_handle_endtag ?p1 ''li'') = lp_anchors ?p1 @ [(lp_href ?p1, volcano, date)]
      \<and> newline \<notin> set volcano \<and> is_timestamp date" by blast
  from list_item_entry[OF h3] h4
  have b: "lp_anchors (ListParser_handle_endtag ?p2 ''li'') = lp_anchors ?p2" by blast
  from a b show ?thesis by simp
qed

section \<open>LondonFetcher.TableParser: the rows behind the last table body tag\<close>

lemma TableParser_events_Nil [simp]: "TableParser_events p [] = p"
  by (simp add: TableParser_events_def)

lemma TableParser_events_Cons [simp]:
  "TableParser_events p (ev # evs) = TableParser_events (TableParser_handle p ev) evs"
  by (simp add: TableParser_events_def)

lemma TableParser_events_append [simp]:
  "TableParser_events p (evs1 @ evs2) = TableParser_events (TableParser_events p evs1) evs2"
  by (simp add: TableParser_events_def)

lemma tbody_resets: "TableParser_handle_starttag p ''tbody'' attrs = TableParser_init"
  by (simp add: TableParser_handle_starttag_def TableParser_init_def)

text \<open>
  C8, as stated, fails: \<open>handle_endtag\<close> acts on \<open>td\<close> and \<open>tr\<close> only, so \<open></tbody>\<close> ends
  nothing. On a page with two \<open><tbody>\<close> elements and a \<open><tfoot>\<close> behind them, the row of
  the \<open><tfoot>\<close>, which lies in no \<open><tbody>\<close>, is part of the result.
\<close>

theorem rows_behind_last_tbody_are_kept:
  "tp_rows (TableParser_events TableParser_init
      [StartTag ''tbody'' [],
       StartTag ''tr'' [], StartTag ''td'' [], Data ''Old'', EndTag ''td'', EndTag ''tr'',
       EndTag ''tbody'',
       StartTag ''tbody'' [],
       StartTag ''tr'' [], StartTag ''td'' [], Data ''Etna'', EndTag ''td'', EndTag ''tr'',
       EndTag ''tbody'',
       StartTag ''tfoot'' [],
       StartTag ''tr'' [], StartTag ''td'' [], Data ''Footer'', EndTag ''td'', EndTag ''tr'',
       EndTag ''tfoot''])
     = [[\<lparr>cell_text = ''Etna'', cell_href = Some []\<rparr>],
        [\<lparr>cell_text = ''Footer'', cell_href = Some []\<rparr>]]"
  by code_simp

text \<open>
  C8, amended. A \<open><tbody>\<close> start tag resets the whole parser, so the result of a page is
  the result of the events behind its last \<open><tbody>\<close> start tag, for \<open>feed\<close> as for the
  handlers: the rows of every earlier \<open><tbody>\<close> are dropped, and the rows behind the last
  \<open><tbody>\<close> start tag are kept, whether inside that element or behind it, since
  \<open></tbody>\<close> changes nothing. \<open>rows\<close> changes at no other event than \<open><tbody>\<close> and
  \<open></tr>\<close>, and \<open></tr>\<close> appends the row only when it holds at least one cell, cells
  being completed by \<open></td>\<close>.
\<close>

theorem rows_behind_last_tbody_tag:
  "TableParser_events p (evs1 @ StartTag ''tbody'' attrs # evs2)
     = TableParser_events TableParser_init evs2
   \<and> (html_events w (try_decode w data) = Inr (evs1 @ StartTag ''tbody'' attrs # evs2) \<longrightarrow>
        TableParser_feed w p data = Inr (TableParser_events TableParser_init evs2))
   \<and> TableParser_handle p (EndTag ''tbody'') = p
   \<and> tp_rows (TableParser_handle p (EndTag ''tr''))
       = (if length (tp_row p) > 0 then tp_rows p @ [tp_row p] else tp_rows p)
   \<and> (ev \<noteq> EndTag ''tr'' \<and> (\<forall>a. ev \<noteq> StartTag ''tbody'' a) \<longrightarrow>
        tp_rows (TableParser_handle p ev) = tp_rows p)
   \<and> tp_row (TableParser_handle p (EndTag ''td''))
       = tp_row p @ [\<lparr>cell_text = tp_text p, cell_href = tp_href p\<rparr>]"
proof (intro conjI impI)
  show 1: "TableParser_events q (evs1 @ StartTag ''tbody'' attrs # evs2)
     = TableParser_events TableParser_init evs2" for q
    by (simp add: tbody_resets)
  show "TableParser_feed w p data = Inr (TableParser_events TableParser_init evs2)"
    if "html_events w (try_decode w data) = Inr (evs1 @ StartTag ''tbody'' attrs # evs2)"
    using that 1 by (simp add: TableParser_feed_def Let_def del: TableParser_events_append TableParser_events_Cons)
  show "TableParser_handle p (EndTag ''tbody'') = p"
    by (simp add: TableParser_handle_endtag_def)
  show "tp_rows (TableParser_handle p (EndTag ''tr''))
       = (if length (tp_row p) > 0 then tp_rows p @ [tp_row p] else tp_rows p)"
    by (simp add: TableParser_handle_endtag_def)
  show "tp_rows (TableParser_handle p ev) = tp_rows p"
    if "ev \<noteq> EndTag ''tr'' \<and> (\<forall>a. ev \<noteq> StartTag ''tbody'' a)"
    using that
    by (cases ev)
       (auto simp: TableParser_handle_endtag_def TableParser_handle_starttag_def
          TableParser_handle_data_def split: sum.splits)
  show "tp_row (TableParser_handle p (EndTag ''td''))
       = tp_row p @ [\<lparr>cell_text = tp_text p, cell_href = tp_href p\<rparr>]"
    by (simp add: TableParser_handle_endtag_def)
qed

theorem rows_behind_last_tbody_tag_witness:
  "TableParser_feed
      (web_world
        ([StartTag ''tbody'' [], StartTag ''tr'' [], Data ''Old'', EndTag ''td'', EndTag ''tr'',
          EndTag ''tbody'']
          @ StartTag ''tbody'' []
          # [StartTag ''tr'' [], Data ''Etna'', EndTag ''td'', EndTag ''tr'', StartTag ''tr'' [],
             EndTag ''tr'', EndTag ''tbody'', StartTag ''tfoot'' [], StartTag ''tr'' [],
             Data ''Footer'', EndTag ''td'', EndTag ''tr'', EndTag ''tfoot'']))
      TableParser_init (Bytes [])
     = Inr (TableParser_events TableParser_init
         [StartTag ''tr'' [], Data ''Etna'', EndTag ''td'', EndTag ''tr'', StartTag ''tr'' [],
          EndTag ''tr'', EndTag ''tbody'', StartTag ''tfoot'' [], StartTag ''tr'' [],
          Data ''Footer'', EndTag ''td'', EndTag ''tr'', EndTag ''tfoot''])
   \<and> tp_rows (TableParser_events TableParser_init
         [StartTag ''tr'' [], Data ''Etna'', EndTag ''td'', EndTag ''tr'', StartTag ''tr'' [],
          EndTag ''tr'', EndTag ''tbody'', StartTag ''tfoot'' [], StartTag ''tr'' [],
          Data ''Footer'', EndTag ''td'', EndTag ''tr'', EndTag ''tfoot''])
      = [[\<lparr>cell_text = ''Etna'', cell_href = Some []\<rparr>],
         [\<lparr>cell_text = ''Footer'', cell_href = Some []\<rparr>]]
   \<and> tp_rows (TableParser_handle TableParser_init (EndTag ''td'')) = tp_rows TableParser_init"
proof -
  let ?evs1 = "[StartTag ''tbody'' [], StartTag ''tr'' [], Data ''Old'', EndTag ''td'', EndTag ''tr'',
          EndTag ''tbody'']"
  let ?evs2 = "[StartTag ''tr'' [], Data ''Etna'', EndTag ''td'', EndTag ''tr'', StartTag ''tr'' [],
             EndTag ''tr'', EndTag ''tbody'', StartTag ''tfoot'' [], StartTag ''tr'' [],
             Data ''Footer'', EndTag ''td'', EndTag ''tr'', EndTag ''tfoot'']"
  let ?w = "web_world (?evs1 @ StartTag ''tbody'' [] # ?evs2)"
  have h1: "html_events ?w (try_decode ?w (Bytes [])) = Inr (?evs1 @ StartTag ''tbody'' [] # ?evs2)"
    by (simp add: web_world_def)
  have h2: "EndTag ''td'' \<noteq> EndTag ''tr'' \<and> (\<forall>a. EndTag ''td'' \<noteq> StartTag ''tbody'' a)"
    by simp
  have r: "tp_rows (TableParser_events TableParser_init ?evs2)
             = [[\<lparr>cell_text = ''Etna'', cell_href = Some []\<rparr>],
                [\<lparr>cell_text = ''Footer'', cell_href = Some []\<rparr>]]"
    by code_simp
  from rows_behind_last_tbody_tag[of TableParser_init ?evs1 "[]" ?evs2 ?w "Bytes []" "EndTag ''td''"] h1 h2 r
  show ?thesis by blast
qed

section \<open>Fetcher.hasExistingFile\<close>

lemma endswith_suffix: "endswith s p \<longleftrightarrow> suffix p s"
proof
  assume "endswith s p"
  then have "s = take (length s - length p) s @ p"
    unfolding endswith_def by (metis append_take_drop_id)
  then show "suffix p s" unfolding suffix_def by blast
next
  assume "suffix p s"
  then obtain a where "s = a @ p" unfolding suffix_def by blast
  then show "endswith s p" by (simp add: endswith_def)
qed

lemma split_nonempty: "split sep s \<noteq> []"
  by (induction s) (auto split: list.splits)

lemma last_split_no_sep: "sep \<notin> set (last (split sep s))"
proof (induction s)
  case Nil
  then show ?case by simp
next
  case (Cons c cs)
  then show ?case using split_nonempty[of sep cs]
    by (cases "split sep cs") (auto split: if_splits)
qed

lemma suffix_behind_slash:
  assumes "CHR ''/'' \<notin> set p" "suffix p (a @ CHR ''/'' # seg)"
  shows "suffix p seg"
proof -
  from assms(2) have "suffix p (CHR ''/'' # seg) \<or> (\<exists>ps. p = ps @ (CHR ''/'' # seg))"
    by (auto simp: suffix_append)
  with assms(1) have "suffix p (CHR ''/'' # seg)" by auto
  with assms(1) show ?thesis by (auto simp: suffix_Cons)
qed

lemma endswith_path_join:
  assumes "CHR ''/'' \<notin> set seg" "CHR ''/'' \<notin> set p"
  shows "endswith (path_join dir seg) p \<longleftrightarrow> endswith seg p"
proof -
  have ns: "\<not> startswith seg ''/''" using assms(1) by (cases seg) (auto simp: startswith_def)
  consider "path_join dir seg = seg" | a where "path_join dir seg = a @ CHR ''/'' # seg"
  proof (cases "dir = []")
    case True
    then show ?thesis using that(1) ns by (simp add: path_join_def)
  next
    case False
    show ?thesis
    proof (cases "endswith dir ''/''")
      case True
      then obtain a where "dir = a @ ''/''" unfolding endswith_suffix suffix_def by blast
      then show ?thesis using that(2)[of a] ns True by (simp add: path_join_def)
    next
      case no: False
      then show ?thesis using that(2)[of dir] ns False by (simp add: path_join_def)
    qed
  qed
  then show ?thesis
  proof cases
    case 1
    then show ?thesis by simp
  next
    case 2
    have "suffix p seg \<Longrightarrow> suffix p (a @ CHR ''/'' # seg)"
      by (metis suffix_appendI suffix_ConsI)
    then show ?thesis unfolding 2 endswith_suffix
      using suffix_behind_slash[OF assms(2)] by blast
  qed
qed

lemma replace_set: "set (replace old new s) \<subseteq> set s \<union> set new"
proof (induction old new s rule: replace.induct)
  case (1 old new s)
  show ?case
  proof (cases "old \<noteq> [] \<and> startswith s old")
    case True
    then have "set (replace old new (drop (length old) s)) \<subseteq> set (drop (length old) s) \<union> set new"
      using 1(1) by simp
    moreover have "set (drop (length old) s) \<subseteq> set s" by (rule set_drop_subset)
    ultimately show ?thesis using True by (subst replace.simps) auto
  next
    case False
    show ?thesis
    proof (cases s)
      case Nil
      then show ?thesis using False by (subst replace.simps) auto
    next
      case (Cons c cs)
      then have "set (replace old new cs) \<subseteq> set cs \<union> set new" using 1(2) False by simp
      then show ?thesis using False Cons by (subst replace.simps) auto
    qed
  qed
qed

text \<open>
  C9. \<open>hasExistingFile\<close> is true exactly when the file with the derived \<open>.kml\<close> name
  exists in the output directory. The code tests the suffix \<open>.html\<close> on the joined path
  \<open>vaa_file\<close>; that is the same as testing it on the last path segment. The derived
  name has no \<open>/\<close>, so the path looked up lies directly in the output directory, and it
  is the only path the check looks up.
\<close>

theorem hasExistingFile_looks_for_kml:
  "hasExistingFile w output_dir href = path_exists w (path_join output_dir (kml_name href))
   \<and> CHR ''/'' \<notin> set (kml_name href)
   \<and> path_join output_dir (kml_name href)
       = (if output_dir = [] \<or> endswith output_dir ''/'' then output_dir @ kml_name href
          else output_dir @ ''/'' @ kml_name href)"
proof -
  have n: "CHR ''/'' \<notin> set (last (split (CHR ''/'') href))" by (rule last_split_no_sep)
  have "endswith (path_join output_dir (last (split (CHR ''/'') href))) ''.html''
          \<longleftrightarrow> endswith (last (split (CHR ''/'') href)) ''.html''"
    by (rule endswith_path_join[OF n]) simp
  then have 1: "hasExistingFile w output_dir href
                  = path_exists w (path_join output_dir (kml_name href))"
    by (simp add: hasExistingFile_def kml_name_def Let_def)
  have 2: "CHR ''/'' \<notin> set (kml_name href)"
    using n replace_set[of "''.html''" "''.kml''" "last (split (CHR ''/'') href)"]
    by (auto simp: kml_name_def Let_def)
  then have "\<not> startswith (kml_name href) ''/''"
    by (cases "kml_name href") (auto simp: startswith_def)
  then have 3: "path_join output_dir (kml_name href)
       = (if output_dir = [] \<or> endswith output_dir ''/'' then output_dir @ kml_name href
          else output_dir @ ''/'' @ kml_name href)"
    by (simp add: path_join_def)
  from 1 2 3 show ?thesis by blast
qed

theorem hasExistingFile_looks_for_kml_witness:
  "hasExistingFile (sample_world []\<lparr>path_exists := (\<lambda>p. p = ''/out/123.kml'')\<rparr>) ''/out''
      ''http://host/VAA/123.html''
   \<and> \<not> hasExistingFile (sample_world []\<lparr>path_exists := (\<lambda>p. p = ''/out/123.html'')\<rparr>) ''/out''
      ''http://host/VAA/123.html''
   \<and> hasExistingFile (sample_world []\<lparr>path_exists := (\<lambda>p. p = ''/out/london.202005011200.kml'')\<rparr>)
      ''/out'' ''london.202005011200''"
proof -
  have k1: "path_join ''/out'' (kml_name ''http://host/VAA/123.html'') = ''/out/123.kml''"
    by code_simp
  have k2: "path_join ''/out'' (kml_name ''london.202005011200'') = ''/out/london.202005011200.kml''"
    by code_simp
  have a: "hasExistingFile w ''/out'' ''http://host/VAA/123.html'' = path_exists w ''/out/123.kml''"
    for w :: "nat world"
    using hasExistingFile_looks_for_kml[of w "''/out''" "''http://host/VAA/123.html''", THEN conjunct1]
    unfolding k1 .
  have b: "hasExistingFile w ''/out'' ''london.202005011200''
             = path_exists w ''/out/london.202005011200.kml''"
    for w :: "nat world"
    using hasExistingFile_looks_for_kml[of w "''/out''" "''london.202005011200''", THEN conjunct1]
    unfolding k2 .
  show ?thesis unfolding a b by simp
qed

section \<open>The fetch loops\<close>

lemma fetch_loop_length:
  "count < n \<Longrightarrow> length (fst (fetch_loop body n count xs)) \<le> n - count"
proof (induction xs arbitrary: count)
  case Nil
  then show ?case by simp
next
  case (Cons x xs)
  show ?case
  proof (cases "body x")
    case (Inl e)
    then show ?thesis by simp
  next
    case (Inr r)
    show ?thesis
    proof (cases r)
      case None
      then show ?thesis using Inr Cons by simp
    next
      case (Some it)
      show ?thesis
      proof (cases "count + 1 = n")
        case True
        then show ?thesis using Inr Some Cons.prems by simp
      next
        case False
        then have "count + 1 < n" using Cons.prems by simp
        from Cons.IH[OF this] show ?thesis
          using Inr Some False \<open>count + 1 < n\<close> by (auto split: prod.splits)
      qed
    qed
  qed
qed

lemma fetch_loop_order:
  "\<exists>ys. subseq ys xs \<and>
        list_all2 (\<lambda>x it. body x = Inr (Some it)) ys (fst (fetch_loop body n count xs))"
proof (induction xs arbitrary: count)
  case Nil
  then show ?case by simp
next
  case (Cons x xs)
  show ?case
  proof (cases "body x")
    case (Inl e)
    then have "subseq [] (x # xs) \<and>
        list_all2 (\<lambda>x it. body x = Inr (Some it)) [] (fst (fetch_loop body n count (x # xs)))"
      by simp
    then show ?thesis by blast
  next
    case (Inr r)
    show ?thesis
    proof (cases r)
      case None
      from Cons.IH[of count] obtain ys where
        "subseq ys xs" "list_all2 (\<lambda>x it. body x = Inr (Some it)) ys (fst (fetch_loop body n count xs))"
        by blast
      then have "subseq ys (x # xs) \<and>
        list_all2 (\<lambda>x it. body x = Inr (Some it)) ys (fst (fetch_loop body n count (x # xs)))"
        using Inr None by (simp add: list_emb_Cons)
      then show ?thesis by blast
    next
      case (Some it)
      show ?thesis
      proof (cases "count + 1 = n")
        case True
        then have "subseq [x] (x # xs) \<and>
          list_all2 (\<lambda>x it. body x = Inr (Some it)) [x] (fst (fetch_loop body n count (x # xs)))"
          using Inr Some by simp
        then show ?thesis by blast
      next
        case False
        from Cons.IH[of "count + 1"] obtain ys where
          "subseq ys xs"
          "list_all2 (\<lambda>x it. body x = Inr (Some it)) ys (fst (fetch_loop body n (count + 1) xs))"
          by blast
        then have "subseq (x # ys) (x # xs) \<and>
          list_all2 (\<lambda>x it. body x = Inr (Some it)) (x # ys) (fst (fetch_loop body n count (x # xs)))"
          using Inr Some False by (auto split: prod.splits)
        then show ?thesis by blast
      qed
    qed
  qed
qed

lemma fetch_loop_no_raise:
  "\<forall>x \<in> set xs. \<exists>r. body x = Inr r \<Longrightarrow> snd (fetch_loop body n count xs) = None"
proof (induction xs arbitrary: count)
  case Nil
  then show ?case by simp
next
  case (Cons x xs)
  then obtain r where r: "body x = Inr r" by auto
  have ih: "snd (fetch_loop body n c xs) = None" for c using Cons by simp
  show ?case using r ih[of count] ih[of "count + 1"]
    by (cases r) (auto split: prod.splits)
qed

lemma fetch_loop_skip:
  "body x = Inr None \<Longrightarrow>
     fetch_loop body n count (xs @ x # ys) = fetch_loop body n count (xs @ ys)"
proof (induction xs arbitrary: count)
  case Nil
  then show ?case by simp
next
  case (Cons a xs)
  then show ?case by (auto split: sum.splits option.splits prod.splits)
qed

lemma Test_fetch_length: "length (fst (Test_fetch w d)) \<le> 1"
  by (auto simp: Test_fetch_def split: sum.splits buffer.splits prod.splits)

lemma sample_feed:
  "ListParser_feed (sample_world evs) p (Bytes []) = Inr (ListParser_events p evs)"
  "VAAParser_feed (sample_world evs) vp (Bytes []) = Inr (VAAParser_events vp evs)"
  "TableParser_feed (sample_world evs) tp (Bytes []) = Inr (TableParser_events (tp\<lparr>tp_rows := []\<rparr>) evs)"
  "Parser_feed (sample_world evs) ap (Bytes []) = Inr (Parser_events (ap\<lparr>p_anchors := []\<rparr>) evs)"
  by (simp_all add: ListParser_feed_def VAAParser_feed_def TableParser_feed_def Parser_feed_def
        sample_world_def)

text \<open>
  C5. A fetch adds at most \<open>number_to_fetch\<close> items to the list: 10 for ToulouseFetcher,
  AnchorageFetcher and LondonFetcher, whatever the page lists, and 1 for TestFetcher.
  The items are in document order: they are built, one by one and in order, from a
  subsequence of the entries the list parser returned.
\<close>

theorem fetch_limit_and_order:
  "length (fst (Toulouse_fetch w d)) \<le> Toulouse_number_to_fetch
   \<and> length (fst (Anchorage_fetch w d)) \<le> Anchorage_number_to_fetch
   \<and> length (fst (London_fetch w d)) \<le> London_number_to_fetch
   \<and> length (fst (Test_fetch w d)) \<le> Test_number_to_fetch
   \<and> (urlopen_read w Toulouse_url = Inr html \<and> ListParser_feed w ListParser_init html = Inr lp \<longrightarrow>
        (\<exists>ys. subseq ys (lp_anchors lp) \<and>
           list_all2 (\<lambda>a it. Toulouse_body w d a = Inr (Some it)) ys (fst (Toulouse_fetch w d))))
   \<and> (urlopen_read w Anchorage_url = Inr html \<and> Parser_feed w Parser_init html = Inr ap \<longrightarrow>
        (\<exists>ys. subseq ys (Parser_anchors ap) \<and>
           list_all2 (\<lambda>a it. Anchorage_body w d a = Inr (Some it)) ys (fst (Anchorage_fetch w d))))
   \<and> (urlopen_read w London_url = Inr html
        \<and> TableParser_feed w TableParser_init (try_decode w html) = Inr tp \<longrightarrow>
        (\<exists>ys. subseq ys (tp_rows tp) \<and>
           list_all2 (\<lambda>row it. London_body w d row = Inr (Some it)) ys (fst (London_fetch w d))))"
proof (intro conjI impI)
  show "length (fst (Toulouse_fetch w d)) \<le> Toulouse_number_to_fetch"
    using fetch_loop_length[of 0 Toulouse_number_to_fetch "Toulouse_body w d"]
    by (auto simp: Toulouse_fetch_def Toulouse_number_to_fetch_def split: sum.splits)
  show "length (fst (Anchorage_fetch w d)) \<le> Anchorage_number_to_fetch"
    using fetch_loop_length[of 0 Anchorage_number_to_fetch "Anchorage_body w d"]
    by (auto simp: Anchorage_fetch_def Anchorage_number_to_fetch_def split: sum.splits)
  show "length (fst (London_fetch w d)) \<le> London_number_to_fetch"
    using fetch_loop_length[of 0 London_number_to_fetch "London_body w d"]
    by (auto simp: London_fetch_def London_number_to_fetch_def split: sum.splits)
  show "length (fst (Test_fetch w d)) \<le> Test_number_to_fetch"
    using Test_fetch_length by (simp add: Test_number_to_fetch_def)
next
  assume "urlopen_read w Toulouse_url = Inr html \<and> ListParser_feed w ListParser_init html = Inr lp"
  then have "Toulouse_fetch w d
      = fetch_loop (Toulouse_body w d) Toulouse_number_to_fetch 0 (lp_anchors lp)"
    by (simp add: Toulouse_fetch_def)
  then show "\<exists>ys. subseq ys (lp_anchors lp) \<and>
           list_all2 (\<lambda>a it. Toulouse_body w d a = Inr (Some it)) ys (fst (Toulouse_fetch w d))"
    using fetch_loop_order by simp
next
  assume "urlopen_read w Anchorage_url = Inr html \<and> Parser_feed w Parser_init html = Inr ap"
  then have "Anchorage_fetch w d
      = fetch_loop (Anchorage_body w d) Anchorage_number_to_fetch 0 (Parser_anchors ap)"
    by (simp add: Anchorage_fetch_def)
  then show "\<exists>ys. subseq ys (Parser_anchors ap) \<and>
           list_all2 (\<lambda>a it. Anchorage_body w d a = Inr (Some it)) ys (fst (Anchorage_fetch w d))"
    using fetch_loop_order by simp
next
  assume "urlopen_read w London_url = Inr html
        \<and> TableParser_feed w TableParser_init (try_decode w html) = Inr tp"
  then have "London_fetch w d
      = fetch_loop (London_body w d) London_number_to_fetch 0 (tp_rows tp)"
    by (simp add: London_fetch_def)
  then show "\<exists>ys. subseq ys (tp_rows tp) \<and>
           list_all2 (\<lambda>row it. London_body w d row = Inr (Some it)) ys (fst (London_fetch w d))"
    using fetch_loop_order by simp
qed

theorem fetch_limit_and_order_witness:
  "length (fst (Toulouse_fetch
      (sample_world (toulouse_page 11 ''http://vaac.meteo.fr/advisory/20200501/va.html'')) ''/out''))
     \<le> Toulouse_number_to_fetch
   \<and> length (lp_anchors (ListParser_events ListParser_init
        (toulouse_page 11 ''http://vaac.meteo.fr/advisory/20200501/va.html''))) = 11
   \<and> (\<exists>ys. subseq ys (lp_anchors (ListParser_events ListParser_init
                (toulouse_page 11 ''http://vaac.meteo.fr/advisory/20200501/va.html'')))
        \<and> list_all2
            (\<lambda>a it. Toulouse_body
               (sample_world (toulouse_page 11 ''http://vaac.meteo.fr/advisory/20200501/va.html''))
               ''/out'' a = Inr (Some it))
            ys
            (fst (Toulouse_fetch
               (sample_world (toulouse_page 11 ''http://vaac.meteo.fr/advisory/20200501/va.html''))
               ''/out'')))"
proof -
  let ?evs = "toulouse_page 11 ''http://vaac.meteo.fr/advisory/20200501/va.html''"
  let ?w = "sample_world ?evs"
  have h1: "urlopen_read ?w Toulouse_url = Inr (Bytes [])" by (simp add: sample_world_def)
  have h2: "ListParser_feed ?w ListParser_init (Bytes []) = Inr (ListParser_events ListParser_init ?evs)"
    by (rule sample_feed)
  have n: "length (lp_anchors (ListParser_events ListParser_init ?evs)) = 11" by code_simp
  from fetch_limit_and_order[of ?w "''/out''" "Bytes []" "ListParser_events ListParser_init ?evs"] h1 h2 n
  show ?thesis by blast
qed

section \<open>Where parsing and assembly raise\<close>

lemma getitem_row:
  assumes "4 \<le> length xs"
  shows "getitem xs 0 = Inr (xs ! 0)" "getitem xs 1 = Inr (xs ! 1)"
        "getitem xs 2 = Inr (xs ! 2)" "getitem xs 3 = Inr (xs ! 3)"
  using assms by (auto simp: getitem_def)

lemma split_length: "sep \<in> set s \<Longrightarrow> 2 \<le> length (split sep s)"
proof (induction s)
  case Nil
  then show ?case by simp
next
  case (Cons c cs)
  then show ?case using split_nonempty[of sep cs]
    by (cases "split sep cs") (auto split: if_splits)
qed

lemma getitem_minus2: "2 \<le> length xs \<Longrightarrow> \<exists>x. getitem xs (- 2) = Inr x"
  by (auto simp: getitem_def Let_def)

lemma Anchorage_body_other_text:
  "concat (fst (snd a)) \<noteq> ''X'' \<Longrightarrow> Anchorage_body w d a = Inr None"
  by (cases a) (simp add: Anchorage_body_def Anchorage_filter_def)

lemma fetch_loop_all_skipped:
  "\<forall>x \<in> set xs. body x = Inr None \<Longrightarrow> fetch_loop body n count xs = ([], None)"
  by (induction xs) auto

lemma TableParser_handle_rows_nonempty:
  "\<forall>r \<in> set (tp_rows p). r \<noteq> [] \<Longrightarrow> \<forall>r \<in> set (tp_rows (TableParser_handle p ev)). r \<noteq> []"
  by (cases ev)
     (auto simp: TableParser_handle_starttag_def TableParser_handle_data_def
        TableParser_handle_endtag_def Let_def split: sum.splits if_splits)

lemma TableParser_rows_nonempty:
  "\<forall>r \<in> set (tp_rows p). r \<noteq> [] \<Longrightarrow> \<forall>r \<in> set (tp_rows (TableParser_events p evs)). r \<noteq> []"
proof (induction evs arbitrary: p)
  case Nil
  then show ?case by simp
next
  case (Cons ev evs)
  have "\<forall>r \<in> set (tp_rows (TableParser_handle p ev)). r \<noteq> []"
    by (rule TableParser_handle_rows_nonempty[OF Cons.prems])
  from Cons.IH[OF this] show ?case by simp
qed

lemma London_body_safe:
  assumes "row \<noteq> []" "London_row_safe w row"
  shows "\<exists>r. London_body w d row = Inr r"
proof -
  have g0: "getitem row 0 = Inr (row ! 0)" using assms(1) by (simp add: getitem_def)
  show ?thesis
  proof (cases "length row < 2")
    case True
    then have "getitem row 1 = Inl IndexError" by (simp add: getitem_def)
    then show ?thesis using g0 by (simp add: London_body_def)
  next
    case False
    then have g1: "getitem row 1 = Inr (row ! 1)" by (simp add: getitem_def)
    show ?thesis
    proof (cases "strptime w (cell_text (row ! 1)) ''%H:%M on %d %b %Y''")
      case None
      then show ?thesis using g0 g1 by (simp add: London_body_def)
    next
      case (Some date)
      with False assms(2) have l: "4 \<le> length row"
        and j: "case urljoin w London_url (cell_href (row ! 2)) of
                  Inl e \<Rightarrow> False | Inr advisory_url \<Rightarrow> \<not> isl (read_message w advisory_url)"
        and k: "\<not> isl (urljoin w London_url (cell_href (row ! 3)))"
        by (auto simp: London_row_safe_def)
      from j obtain u where u: "urljoin w London_url (cell_href (row ! 2)) = Inr u"
        "\<not> isl (read_message w u)" by (auto split: sum.splits)
      then obtain c where c: "read_message w u = Inr c" by (cases "read_message w u") auto
      from k obtain g where g: "urljoin w London_url (cell_href (row ! 3)) = Inr g"
        by (cases "urljoin w London_url (cell_href (row ! 3))") auto
      show ?thesis using l Some u(1) c g by (simp add: London_body_def getitem_row)
    qed
  qed
qed

lemma Toulouse_body_safe:
  assumes "Toulouse_entry_safe w a"
  shows "\<exists>r. Toulouse_body w d a = Inr r"
proof -
  from assms obtain h v dt where a: "a = (Some h, v, dt)" and s: "CHR ''/'' \<in> set h"
    and r: "\<not> isl (read_message w h)"
    by (cases a) (auto simp: Toulouse_entry_safe_def split: option.splits)
  obtain seg where g: "getitem (split (CHR ''/'') h) (- 2) = Inr seg"
    using getitem_minus2[OF split_length[OF s]] by blast
  obtain c where c: "read_message w h = Inr c" using r by (cases "read_message w h") auto
  show ?thesis using a g c by (simp add: Toulouse_body_def Let_def)
qed

lemma split_no_sep: "sep \<notin> set s \<Longrightarrow> split sep s = [s]"
  by (induction s) auto

lemma Toulouse_body_short:
  "CHR ''/'' \<notin> set h \<Longrightarrow> Toulouse_body w d (Some h, v, dt) = Inl IndexError"
  by (simp add: Toulouse_body_def Let_def split_no_sep getitem_def)

lemma decoded_feed:
  assumes "bytes_decode w b = Some s" "html_events w (Str s) = Inr evs"
  shows "TableParser_feed w TableParser_init (try_decode w (Bytes b))
           = Inr (TableParser_events TableParser_init evs)"
    and "ListParser_feed w ListParser_init (Bytes b) = Inr (ListParser_events ListParser_init evs)"
    and "Parser_feed w Parser_init (Bytes b) = Inr (Parser_events Parser_init evs)"
  using assms
  by (simp_all add: TableParser_feed_def ListParser_feed_def Parser_feed_def
        TableParser_init_def Parser_init_def)

text \<open>
  C2, as stated, fails: no loop guards its indexing. An \<open>href\<close> without a directory part
  splits into one segment, \<open>info[-2]\<close> raises \<open>IndexError\<close> and the exception leaves
  \<open>ToulouseFetcher.fetch\<close>.
\<close>

theorem href_without_directory_raises:
  "Toulouse_fetch (web_world (toulouse_page 1 ''123.html'')) ''/out'' = ([], Some IndexError)"
  by code_simp

text \<open>
  C2, amended. Take a list page that decodes and that the HTML scanner accepts.
  \<open>LondonFetcher.fetch\<close> does not raise when every row the parser returns either gives
  no timestamp (fewer than two cells, or a second cell that does not parse: the row is
  skipped) or has at least four cells whose two links \<open>urljoin\<close> resolves and whose
  advisory page can be read. \<open>ToulouseFetcher.fetch\<close> does not raise when every entry's
  \<open>href\<close> is a string with at least two path segments whose page can be read.
  \<open>AnchorageFetcher.fetch\<close> returns nothing, without raising, when no anchor has the text
  \<open>X\<close>. An entry whose \<open>href\<close> has no \<open>/\<close> makes the body of ToulouseFetcher's loop raise
  \<open>IndexError\<close>.
\<close>

theorem fetch_raises_only_where_unguarded:
  assumes "bytes_decode w b = Some s" and "html_events w (Str s) = Inr evs"
  shows "(urlopen_read w London_url = Inr (Bytes b)
            \<and> (\<forall>row \<in> set (tp_rows (TableParser_events TableParser_init evs)). London_row_safe w row)
          \<longrightarrow> snd (London_fetch w d) = None)
       \<and> (urlopen_read w Toulouse_url = Inr (Bytes b)
            \<and> (\<forall>a \<in> set (lp_anchors (ListParser_events ListParser_init evs)). Toulouse_entry_safe w a)
          \<longrightarrow> snd (Toulouse_fetch w d) = None)
       \<and> (urlopen_read w Anchorage_url = Inr (Bytes b)
            \<and> (\<forall>a \<in> set (Parser_anchors (Parser_events Parser_init evs)). concat (fst (snd a)) \<noteq> ''X'')
          \<longrightarrow> Anchorage_fetch w d = ([], None))
       \<and> (CHR ''/'' \<notin> set h \<longrightarrow> Toulouse_body w d (Some h, v, dt) = Inl IndexError)"
proof (intro conjI impI)
  assume a: "urlopen_read w London_url = Inr (Bytes b)
            \<and> (\<forall>row \<in> set (tp_rows (TableParser_events TableParser_init evs)). London_row_safe w row)"
  have ne: "\<forall>r \<in> set (tp_rows (TableParser_events TableParser_init evs)). r \<noteq> []"
    by (rule TableParser_rows_nonempty) (simp add: TableParser_init_def)
  have "London_fetch w d
          = fetch_loop (London_body w d) London_number_to_fetch 0
              (tp_rows (TableParser_events TableParser_init evs))"
    using a decoded_feed(1)[OF assms] by (simp add: London_fetch_def)
  moreover have "snd (fetch_loop (London_body w d) London_number_to_fetch 0
              (tp_rows (TableParser_events TableParser_init evs))) = None"
    using a ne London_body_safe by (intro fetch_loop_no_raise) blast
  ultimately show "snd (London_fetch w d) = None" by simp
next
  assume a: "urlopen_read w Toulouse_url = Inr (Bytes b)
            \<and> (\<forall>a \<in> set (lp_anchors (ListParser_events ListParser_init evs)). Toulouse_entry_safe w a)"
  have "Toulouse_fetch w d
          = fetch_loop (Toulouse_body w d) Toulouse_number_to_fetch 0
              (lp_anchors (ListParser_events ListParser_init evs))"
    using a decoded_feed(2)[OF assms] by (simp add: Toulouse_fetch_def)
  moreover have "snd (fetch_loop (Toulouse_body w d) Toulouse_number_to_fetch 0
              (lp_anchors (ListParser_events ListParser_init evs))) = None"
    using a Toulouse_body_safe by (intro fetch_loop_no_raise) blast
  ultimately show "snd (Toulouse_fetch w d) = None" by simp
next
  assume a: "urlopen_read w Anchorage_url = Inr (Bytes b)
            \<and> (\<forall>a \<in> set (Parser_anchors (Parser_events Parser_init evs)). concat (fst (snd a)) \<noteq> ''X'')"
  have "Anchorage_fetch w d
          = fetch_loop (Anchorage_body w d) Anchorage_number_to_fetch 0
              (Parser_anchors (Parser_events Parser_init evs))"
    using a decoded_feed(3)[OF assms] by (simp add: Anchorage_fetch_def)
  moreover have "fetch_loop (Anchorage_body w d) Anchorage_number_to_fetch 0
              (Parser_anchors (Parser_events Parser_init evs)) = ([], None)"
    using a Anchorage_body_other_text by (intro fetch_loop_all_skipped) blast
  ultimately show "Anchorage_fetch w d = ([], None)" by simp
next
  assume "CHR ''/'' \<notin> set h"
  then show "Toulouse_body w d (Some h, v, dt) = Inl IndexError" by (rule Toulouse_body_short)
qed

theorem fetch_raises_only_where_unguarded_witness:
  "snd (London_fetch
      (web_world (london_row ''Etna'' ''not a date'' ''/a1.html'' ''/g1.png''
         @ [StartTag ''tr'' [], StartTag ''td'' [], Data ''Notes'', EndTag ''td'', EndTag ''tr'']
         @ london_row ''Etna'' ''12:00 on 01 May 2020'' ''/a2.html'' ''/g2.png'')) ''/out'') = None
   \<and> snd (Toulouse_fetch
        (web_world (toulouse_page 2 ''http://vaac.meteo.fr/advisory/20200501/va.html'')) ''/out'')
       = None
   \<and> Anchorage_fetch
        (web_world [StartTag ''tr'' [], StartTag ''td'' [],
           StartTag ''a'' [(''href'', Some ''about.html'')], Data ''About'', EndTag ''a'',
           EndTag ''td'', EndTag ''tr'']) ''/out'' = ([], None)
   \<and> Toulouse_body (web_world []) ''/out'' (Some ''123.html'', ''Volcano X'', ''2020-05-01 12:00'')
       = Inl IndexError"
proof -
  let ?l = "london_row ''Etna'' ''not a date'' ''/a1.html'' ''/g1.png''
         @ [StartTag ''tr'' [], StartTag ''td'' [], Data ''Notes'', EndTag ''td'', EndTag ''tr'']
         @ london_row ''Etna'' ''12:00 on 01 May 2020'' ''/a2.html'' ''/g2.png''"
  let ?t = "toulouse_page 2 ''http://vaac.meteo.fr/advisory/20200501/va.html''"
  let ?a = "[StartTag ''tr'' [], StartTag ''td'' [],
           StartTag ''a'' [(''href'', Some ''about.html'')], Data ''About'', EndTag ''a'',
           EndTag ''td'', EndTag ''tr'']"
  have d: "bytes_decode (web_world evs) [] = Some ''list''" for evs
    by (simp add: web_world_def)
  have e: "html_events (web_world evs) (Str ''list'') = Inr evs" for evs
    by (simp add: web_world_def)
  have u: "urlopen_read (web_world evs) London_url = Inr (Bytes [])"
          "urlopen_read (web_world evs) Toulouse_url = Inr (Bytes [])"
          "urlopen_read (web_world evs) Anchorage_url = Inr (Bytes [])" for evs
    by (simp_all add: web_world_def London_url_def Toulouse_url_def Anchorage_url_def
          startswith_def)
  have h1: "\<forall>row \<in> set (tp_rows (TableParser_events TableParser_init ?l)).
              London_row_safe (web_world ?l) row"
    by code_simp
  have h2: "\<forall>a \<in> set (lp_anchors (ListParser_events ListParser_init ?t)).
              Toulouse_entry_safe (web_world ?t) a"
    by code_simp
  have h3: "\<forall>a \<in> set (Parser_anchors (Parser_events Parser_init ?a)). concat (fst (snd a)) \<noteq> ''X''"
    by code_simp
  have h4: "CHR ''/'' \<notin> set ''123.html''" by simp
  from fetch_raises_only_where_unguarded[OF d e, of ?l "''/out''"] u(1) h1
  have 1: "snd (London_fetch (web_world ?l) ''/out'') = None" by blast
  from fetch_raises_only_where_unguarded[OF d e, of ?t "''/out''"] u(2) h2
  have 2: "snd (Toulouse_fetch (web_world ?t) ''/out'') = None" by blast
  from fetch_raises_only_where_unguarded[OF d e, of ?a "''/out''"] u(3) h3
  have 3: "Anchorage_fetch (web_world ?a) ''/out'' = ([], None)" by blast
  from fetch_raises_only_where_unguarded[OF d e, of "[]" "''/out''" "''123.html''"] h4
  have 4: "Toulouse_body (web_world []) ''/out'' (Some ''123.html'', ''Volcano X'', ''2020-05-01 12:00'')
       = Inl IndexError" by blast
  from 1 2 3 4 show ?thesis by blast
qed

text \<open>
  C3 holds for LondonFetcher and fails for AnchorageFetcher. On a page whose first row
  has no timestamp in its first cell, \<open>AnchorageFetcher.fetch\<close> ends with the exception
  of \<open>strptime\<close> and adds nothing, the second row included; LondonFetcher, whose call
  is inside \<open>try ... except: continue\<close>, drops such a row and builds the item of the next
  one. The body of AnchorageFetcher's loop never builds an item at all: \<open>table_text[0]\<close>
  is a list, and \<open>strptime\<close> raises \<open>TypeError\<close> for it.
\<close>

theorem Anchorage_fetch_raises_where_London_skips:
  "Anchorage_fetch
      (sample_world (table_row [''not a date'', ''Mount_Example''] ''/VAA/1.html''
         @ table_row [''2020-05-01 12:00:00'', ''Mount_Example''] ''/VAA/2.html'')) ''/out''
     = ([], Some TypeError)
   \<and> map item_vag (fst (London_fetch
        (sample_world (table_row [''Etna'', ''not a date'', []] ''/g1.png''
           @ table_row [''Etna'', ''12:00 on 01 May 2020'', []] ''/g2.png'')) ''/out''))
     = [Some ''/g2.png'']
   \<and> snd (London_fetch
        (sample_world (table_row [''Etna'', ''not a date'', []] ''/g1.png''
           @ table_row [''Etna'', ''12:00 on 01 May 2020'', []] ''/g2.png'')) ''/out'') = None
   \<and> Anchorage_body w d a \<noteq> Inr (Some it)"
proof (intro conjI)
  show "Anchorage_body w d a \<noteq> Inr (Some it)"
    by (cases a) (auto simp: Anchorage_body_def Let_def split: sum.splits bool.splits)
qed code_simp+

text \<open>
  C4 fails on the code. \<open>ToulouseFetcher.ListParser.feed\<close> resets nothing, so a second
  \<open>feed\<close> of the same page on the same parser appends the entries again; \<open>VAAParser.feed\<close>
  resets \<open>self.anchors\<close>, which VAAParser does not use, and keeps \<open>self.active\<close> and
  \<open>self.text\<close>, so the second run appends to the text of the first.
\<close>

theorem second_feed_adds_to_first:
  "ListParser_feed (sample_world (toulouse_page 1 ''/adv/123.html'')) ListParser_init (Bytes [])
     = Inr \<lparr>lp_active = False, lp_href = Some [], lp_text = [],
            lp_anchors = [(Some ''/adv/123.html'', ''Volcano X'', ''2020-05-01 12:00'')]\<rparr>
   \<and> ListParser_feed (sample_world (toulouse_page 1 ''/adv/123.html''))
        \<lparr>lp_active = False, lp_href = Some [], lp_text = [],
         lp_anchors = [(Some ''/adv/123.html'', ''Volcano X'', ''2020-05-01 12:00'')]\<rparr> (Bytes [])
     = Inr \<lparr>lp_active = False, lp_href = Some [], lp_text = [],
            lp_anchors = [(Some ''/adv/123.html'', ''Volcano X'', ''2020-05-01 12:00''),
                          (Some ''/adv/123.html'', ''Volcano X'', ''2020-05-01 12:00'')]\<rparr>
   \<and> VAAParser_feed (sample_world [Data ''VA ADVISORY text'']) VAAParser_init (Bytes [])
     = Inr \<lparr>vaa_active = True, vaa_text = ''VA ADVISORY text''\<rparr>
   \<and> VAAParser_feed (sample_world [Data ''VA ADVISORY text''])
        \<lparr>vaa_active = True, vaa_text = ''VA ADVISORY text''\<rparr> (Bytes [])
     = Inr \<lparr>vaa_active = True, vaa_text = ''VA ADVISORY textVA ADVISORY text ''\<rparr>"
  unfolding sample_feed by (intro conjI) code_simp+

end
